theory Spec2Isabelle
  imports Complex_Main
begin

section \<open>The decision tree of hm05/hw5code.py\<close>

text \<open>
  Every exception the Python code can raise is a value of \<open>error\<close>, and a function
  that can raise returns \<open>error + 'a\<close>, with \<open>Inl\<close> for the exception. Class labels
  are integers (\<^typ>\<open>int\<close>), numpy vectors are lists.
\<close>

datatype error =
    ValueError string
  | IndexError
  | KeyError
  | AttributeError
  | TypeError
  | ZeroDivisionError

subsection \<open>Numbers\<close>

text \<open>
  A feature value, a threshold and a score are finite numbers of numpy's \<^verbatim>\<open>float64\<close>
  or \<^verbatim>\<open>int64\<close>; each such number is a rational, so the values are of type \<^typ>\<open>rat\<close>
  and are compared as rationals. The arithmetic of numpy on them is not the arithmetic of
  the rationals: \<^verbatim>\<open>float64\<close> operations round and \<^verbatim>\<open>int64\<close> addition wraps around.
  The operations are therefore parameters of the model, with nothing assumed of them:
  \<^item> \<open>vadd\<close>: \<^verbatim>\<open>a + b\<close> on two feature values, in the type of the feature vector;
  \<^item> \<open>to_float\<close>: the conversion of a feature value to \<^verbatim>\<open>float64\<close> that numpy makes
    before it compares the value with a \<^verbatim>\<open>float64\<close> threshold (the identity on a
    \<^verbatim>\<open>float64\<close> vector);
  \<^item> \<open>fadd\<close>, \<open>fsub\<close>, \<open>fmul\<close>, \<open>fdiv\<close>: \<^verbatim>\<open>+\<close>, \<^verbatim>\<open>-\<close>, \<^verbatim>\<open>*\<close> and the true
    division \<^verbatim>\<open>/\<close> with a \<^verbatim>\<open>float64\<close> result;
  \<^item> \<open>fpow2\<close>: \<^verbatim>\<open>x ** 2\<close>.
  Not-a-number and the infinities are outside the model.
\<close>

record arith =
  vadd :: "rat \<Rightarrow> rat \<Rightarrow> rat"
  to_float :: "rat \<Rightarrow> rat"
  fadd :: "rat \<Rightarrow> rat \<Rightarrow> rat"
  fsub :: "rat \<Rightarrow> rat \<Rightarrow> rat"
  fmul :: "rat \<Rightarrow> rat \<Rightarrow> rat"
  fdiv :: "rat \<Rightarrow> rat \<Rightarrow> rat"
  fpow2 :: "rat \<Rightarrow> rat"

text \<open>The arithmetic without rounding and without wrap-around.\<close>

definition exact_arith :: arith where
  "exact_arith =
     \<lparr>vadd = (\<lambda>a b. a + b), to_float = (\<lambda>v. v), fadd = (\<lambda>a b. a + b),
      fsub = (\<lambda>a b. a - b), fmul = (\<lambda>a b. a * b), fdiv = (\<lambda>a b. a / b),
      fpow2 = (\<lambda>x. x * x)\<rparr>"

text \<open>
  The arithmetic of an \<^verbatim>\<open>int64\<close> feature vector, where the \<^verbatim>\<open>float64\<close>
  operations involved are exact: the sum of two feature values wraps around into the range
  from \<open>-2^63\<close> to \<open>2^63 - 1\<close> of \<^verbatim>\<open>int64\<close>.
\<close>

definition wrap64 :: "rat \<Rightarrow> rat" where
  "wrap64 x =
     (if 9223372036854775808 \<le> x then x - 18446744073709551616
      else if x < - 9223372036854775808 then x + 18446744073709551616
      else x)"

definition int64_arith :: arith where
  "int64_arith = exact_arith\<lparr>vadd := (\<lambda>a b. wrap64 (a + b))\<rparr>"

text \<open>
  Python's \<^verbatim>\<open>sum\<close> over \<^verbatim>\<open>float64\<close> terms: it starts from 0 and adds the terms
  one after the other.
\<close>

definition py_sum :: "arith \<Rightarrow> rat list \<Rightarrow> rat" where
  "py_sum A xs = foldl (fadd A) 0 xs"

subsection \<open>Library functions used by the code\<close>

text \<open>\<^verbatim>\<open>np.unique\<close>: the sorted distinct values of a vector.\<close>

definition np_unique :: "rat list \<Rightarrow> rat list" where
  "np_unique xs = sort (remdups xs)"

text \<open>
  \<^verbatim>\<open>collections.Counter\<close>: a dictionary from elements to their number of
  occurrences, in the order in which the elements were first seen. It is kept as an
  association list since \<^verbatim>\<open>sum(... for count in counts.values())\<close>,
  \<^verbatim>\<open>sorted(ratio.items(), ...)\<close> and \<^verbatim>\<open>most_common\<close> depend on that order.
\<close>

fun counter_add :: "'a \<Rightarrow> ('a \<times> nat) list \<Rightarrow> ('a \<times> nat) list" where
  "counter_add x [] = [(x, 1)]"
| "counter_add x ((k, c) # kcs) =
     (if k = x then (k, c + 1) # kcs else (k, c) # counter_add x kcs)"

definition Counter :: "'a list \<Rightarrow> ('a \<times> nat) list" where
  "Counter xs = foldl (\<lambda>c x. counter_add x c) [] xs"

text \<open>
  Indexing a numpy array with a boolean mask: the elements at the positions where the
  mask is true; IndexError when the mask's length is not the array's.
\<close>

definition mask_select :: "'a list \<Rightarrow> bool list \<Rightarrow> error + 'a list" where
  "mask_select xs bmask =
     (if length bmask \<noteq> length xs then Inl IndexError
      else Inr (map fst (filter snd (zip xs bmask))))"

text \<open>\<^verbatim>\<open>mask.sum()\<close>: the number of true entries.\<close>

definition mask_sum :: "bool list \<Rightarrow> nat" where
  "mask_sum bmask = length (filter id bmask)"

text \<open>\<^verbatim>\<open>np.any(mask)\<close>.\<close>

definition np_any :: "bool list \<Rightarrow> bool" where
  "np_any bmask = list_ex id bmask"

text \<open>
  \<^verbatim>\<open>np.argmin\<close> and \<^verbatim>\<open>np.argmax\<close>: the first index of the least
  (greatest) element. They are only called on non-empty sequences.
\<close>

fun list_min :: "rat list \<Rightarrow> rat" where
  "list_min [] = 0"
| "list_min [x] = x"
| "list_min (x # y # ys) = min x (list_min (y # ys))"

fun list_max :: "rat list \<Rightarrow> rat" where
  "list_max [] = 0"
| "list_max [x] = x"
| "list_max (x # y # ys) = max x (list_max (y # ys))"

definition argmin :: "rat list \<Rightarrow> nat" where
  "argmin xs = length (takeWhile (\<lambda>x. x \<noteq> list_min xs) xs)"

definition argmax :: "rat list \<Rightarrow> nat" where
  "argmax xs = length (takeWhile (\<lambda>x. x \<noteq> list_max xs) xs)"

text \<open>A \<^verbatim>\<open>for\<close> loop whose body may raise: the first exception ends the loop.\<close>

fun for_each :: "('s \<Rightarrow> 'a \<Rightarrow> error + 's) \<Rightarrow> 's \<Rightarrow> 'a list \<Rightarrow> error + 's" where
  "for_each body s [] = Inr s"
| "for_each body s (x # xs) =
     (case body s x of Inl e \<Rightarrow> Inl e | Inr s' \<Rightarrow> for_each body s' xs)"

text \<open>A loop that builds a list from a body that may raise.\<close>

fun traverse :: "('a \<Rightarrow> error + 'b) \<Rightarrow> 'a list \<Rightarrow> error + 'b list" where
  "traverse f [] = Inr []"
| "traverse f (x # xs) =
     (case f x of
        Inl e \<Rightarrow> Inl e
      | Inr y \<Rightarrow> (case traverse f xs of Inl e \<Rightarrow> Inl e | Inr ys \<Rightarrow> Inr (y # ys)))"

subsection \<open>find_best_split\<close>

text \<open>
  \<^verbatim>\<open>1 - sum((count / size) ** 2 for count in counts.values())\<close>, the expression
  the code writes for \<^verbatim>\<open>initial_gini\<close>, \<^verbatim>\<open>left_gini\<close> and
  \<^verbatim>\<open>right_gini\<close>.
\<close>

definition gini_of_counts :: "arith \<Rightarrow> ('a \<times> nat) list \<Rightarrow> nat \<Rightarrow> rat" where
  "gini_of_counts A counts n =
     fsub A 1
       (py_sum A (map (\<lambda>count. fpow2 A (fdiv A (of_nat count) (of_nat n))) (map snd counts)))"

text \<open>The body of the loop over \<^verbatim>\<open>range(len(unique_values) - 1)\<close> (lines 36-56).\<close>

definition split_step ::
  "arith \<Rightarrow> rat list \<Rightarrow> int list \<Rightarrow> rat list \<Rightarrow> nat \<Rightarrow> rat list \<times> rat list \<Rightarrow> nat
     \<Rightarrow> error + (rat list \<times> rat list)" where
  "split_step A feature_vector target_vector unique_values total_count acc i =
     (case acc of (thresholds, ginis) \<Rightarrow>
      let threshold = fdiv A (vadd A (unique_values ! i) (unique_values ! (i + 1))) 2;
          left_mask = map (\<lambda>v. to_float A v < threshold) feature_vector;
          right_mask = map Not left_mask
      in if np_any left_mask \<and> np_any right_mask then
           (case mask_select target_vector left_mask of
              Inl e \<Rightarrow> Inl e
            | Inr left_targets \<Rightarrow>
           (case mask_select target_vector right_mask of
              Inl e \<Rightarrow> Inl e
            | Inr right_targets \<Rightarrow>
              let left_counts = Counter left_targets;
                  right_counts = Counter right_targets;
                  left_size = mask_sum left_mask;
                  right_size = mask_sum right_mask;
                  left_gini = gini_of_counts A left_counts left_size;
                  right_gini = gini_of_counts A right_counts right_size;
                  weighted_gini =
                    fadd A (fmul A (fdiv A (of_nat left_size) (of_nat total_count)) left_gini)
                           (fmul A (fdiv A (of_nat right_size) (of_nat total_count)) right_gini)
              in Inr (thresholds @ [threshold], ginis @ [weighted_gini])))
         else Inr (thresholds, ginis))"

text \<open>
  The result is the 4-tuple \<^verbatim>\<open>(thresholds, ginis, threshold_best, gini_best)\<close>,
  with \<open>None\<close> for Python's \<^verbatim>\<open>None\<close>.
\<close>

type_synonym split_result = "rat list \<times> rat list \<times> rat option \<times> rat option"

definition find_best_split :: "arith \<Rightarrow> rat list \<Rightarrow> int list \<Rightarrow> error + split_result" where
  "find_best_split A feature_vector target_vector =
     (let unique_values = np_unique feature_vector in
      if length unique_values < 2 then Inr ([], [], None, None)
      else
        let total_count = length target_vector;
            class_counts = Counter target_vector;
            initial_gini = gini_of_counts A class_counts total_count
        in case for_each (split_step A feature_vector target_vector unique_values total_count)
                  ([], []) [0 ..< length unique_values - 1] of
             Inl e \<Rightarrow> Inl e
           | Inr (thresholds, ginis) \<Rightarrow>
               if ginis \<noteq> [] then
                 let gini_best_index = argmin ginis;
                     threshold_best = thresholds ! gini_best_index;
                     gini_best = ginis ! gini_best_index
                 in Inr (thresholds, ginis, Some threshold_best, Some gini_best)
               else Inr ([], [], None, None))"

subsection \<open>The scorer's contract, in the words of the specification\<close>

text \<open>
  The midpoints of the adjacent pairs of a sequence, as the arithmetic computes
  \<^verbatim>\<open>(a + b) / 2\<close>.
\<close>

definition midpoint :: "arith \<Rightarrow> rat \<Rightarrow> rat \<Rightarrow> rat" where
  "midpoint A a b = fdiv A (vadd A a b) 2"

definition adjacent_midpoints :: "arith \<Rightarrow> rat list \<Rightarrow> rat list" where
  "adjacent_midpoints A us = map (\<lambda>(a, b). midpoint A a b) (zip us (tl us))"

text \<open>
  The labels of the samples whose feature value is strictly less than the threshold, and
  the labels of the others.
\<close>

definition left_partition :: "arith \<Rightarrow> rat list \<Rightarrow> int list \<Rightarrow> rat \<Rightarrow> int list" where
  "left_partition A fv tv t = map snd (filter (\<lambda>(v, y). to_float A v < t) (zip fv tv))"

definition right_partition :: "arith \<Rightarrow> rat list \<Rightarrow> int list \<Rightarrow> rat \<Rightarrow> int list" where
  "right_partition A fv tv t = map snd (filter (\<lambda>(v, y). \<not> to_float A v < t) (zip fv tv))"

text \<open>A threshold is retained when neither side of it is empty.\<close>

definition retained :: "arith \<Rightarrow> rat list \<Rightarrow> rat \<Rightarrow> bool" where
  "retained A fv t =
     (filter (\<lambda>v. to_float A v < t) fv \<noteq> [] \<and> filter (\<lambda>v. \<not> to_float A v < t) fv \<noteq> [])"

definition kept_thresholds :: "arith \<Rightarrow> rat list \<Rightarrow> rat list" where
  "kept_thresholds A fv = filter (retained A fv) (adjacent_midpoints A (np_unique fv))"

text \<open>The classes of a partition, each once, in the order of their first sample.\<close>

definition classes :: "int list \<Rightarrow> int list" where
  "classes part = rev (remdups (rev part))"

text \<open>
  Gini impurity: 1 minus the sum, over the classes of the partition, of the squared
  fraction of the class within the partition.
\<close>

definition gini_impurity :: "arith \<Rightarrow> int list \<Rightarrow> rat" where
  "gini_impurity A part =
     fsub A 1
       (py_sum A
          (map (\<lambda>c. fpow2 A (fdiv A (of_nat (count_list part c)) (of_nat (length part))))
             (classes part)))"

definition weighted_gini_score :: "arith \<Rightarrow> rat list \<Rightarrow> int list \<Rightarrow> rat \<Rightarrow> rat" where
  "weighted_gini_score A fv tv t =
     fadd A
       (fmul A (fdiv A (of_nat (length (left_partition A fv tv t))) (of_nat (length tv)))
               (gini_impurity A (left_partition A fv tv t)))
       (fmul A (fdiv A (of_nat (length (right_partition A fv tv t))) (of_nat (length tv)))
               (gini_impurity A (right_partition A fv tv t)))"

subsection \<open>The categorical encoding of \<^verbatim>\<open>_fit_node\<close> (lines 98-103)\<close>

text \<open>
  \<^verbatim>\<open>key in counter\<close> and \<^verbatim>\<open>counter[key]\<close>; a Counter gives 0 for a key it
  does not hold.
\<close>

definition counter_mem :: "'a \<Rightarrow> ('a \<times> nat) list \<Rightarrow> bool" where
  "counter_mem key c = (map_of c key \<noteq> None)"

definition counter_get :: "('a \<times> nat) list \<Rightarrow> 'a \<Rightarrow> nat" where
  "counter_get c key = (case map_of c key of None \<Rightarrow> 0 | Some n \<Rightarrow> n)"

text \<open>
  Python's true division \<^verbatim>\<open>a / b\<close> of two integers: ZeroDivisionError when the
  divisor is 0, and else the quotient as a \<^verbatim>\<open>float64\<close>.
\<close>

definition py_div :: "arith \<Rightarrow> nat \<Rightarrow> nat \<Rightarrow> error + rat" where
  "py_div A a b = (if b = 0 then Inl ZeroDivisionError else Inr (fdiv A (of_nat a) (of_nat b)))"

text \<open>
  \<^verbatim>\<open>{key: counts[key] / clicks[key] if key in clicks else 0 for key in counts}\<close>,
  in the order of the keys of \<^verbatim>\<open>counts\<close>.
\<close>

definition ratio_entry ::
  "arith \<Rightarrow> ('a \<times> nat) list \<Rightarrow> ('a \<times> nat) list \<Rightarrow> 'a \<Rightarrow> error + ('a \<times> rat)" where
  "ratio_entry A counts clicks key =
     (if counter_mem key clicks then
        (case py_div A (counter_get counts key) (counter_get clicks key) of
           Inl e \<Rightarrow> Inl e
         | Inr q \<Rightarrow> Inr (key, q))
      else Inr (key, 0))"

text \<open>
  \<^verbatim>\<open>{cat: idx for idx, (cat, _) in enumerate(sorted_categories)}\<close> as an association
  list and the lookup \<^verbatim>\<open>categories_map[x]\<close>, which raises KeyError on a missing key.
  A later entry of a dictionary comprehension overwrites an earlier one with the same key,
  so the lookup reads the list from its end.
\<close>

definition enumerate_categories :: "('a \<times> rat) list \<Rightarrow> ('a \<times> nat) list" where
  "enumerate_categories sorted_categories =
     map (\<lambda>(idx, (cat, _)). (cat, idx)) (enumerate 0 sorted_categories)"

definition dict_get :: "('a \<times> 'b) list \<Rightarrow> 'a \<Rightarrow> error + 'b" where
  "dict_get d key = (case map_of (rev d) key of None \<Rightarrow> Inl KeyError | Some v \<Rightarrow> Inr v)"

text \<open>
  Lines 98-103, for the column \<^verbatim>\<open>sub_X[:, feature]\<close> and the labels
  \<^verbatim>\<open>sub_y\<close>. \<^verbatim>\<open>sub_X[sub_y == 1, feature]\<close> selects by a boolean mask as long
  as \<^verbatim>\<open>sub_y\<close>. Python's \<^verbatim>\<open>sorted\<close> is stable, as \<^const>\<open>sort_key\<close> is.
\<close>

definition encode_categorical :: "arith \<Rightarrow> rat list \<Rightarrow> int list \<Rightarrow> error + rat list" where
  "encode_categorical A col sub_y =
     (let counts = Counter col in
      case mask_select col (map (\<lambda>y. y = 1) sub_y) of
        Inl e \<Rightarrow> Inl e
      | Inr clicked \<Rightarrow>
          let clicks = Counter clicked in
          (case traverse (ratio_entry A counts clicks) (map fst counts) of
             Inl e \<Rightarrow> Inl e
           | Inr ratio \<Rightarrow>
               let sorted_categories = sort_key snd ratio;
                   categories_map = enumerate_categories sorted_categories
               in (case traverse (dict_get categories_map) col of
                     Inl e \<Rightarrow> Inl e
                   | Inr ranks \<Rightarrow> Inr (map of_nat ranks))))"

subsection \<open>The class DecisionTree\<close>

text \<open>
  A node is a Python dictionary with the keys \<^verbatim>\<open>type\<close>, \<^verbatim>\<open>class\<close>,
  \<^verbatim>\<open>feature_split\<close>, \<^verbatim>\<open>threshold\<close>, \<^verbatim>\<open>left_child\<close> and
  \<^verbatim>\<open>right_child\<close>, each present or not; \<^verbatim>\<open>_fit_node\<close> fills it in key by key.
\<close>

datatype node =
  Node (node_type: "string option") (node_class: "int option")
       (node_feature_split: "nat option") (node_threshold: "rat option")
       (node_left_child: "node option") (node_right_child: "node option")

text \<open>The empty dictionary \<^verbatim>\<open>{}\<close>, and a terminal node with its class and no other key.\<close>

definition empty_node :: node where
  "empty_node = Node None None None None None None"

definition Terminal :: "int \<Rightarrow> node" where
  "Terminal c = Node (Some ''terminal'') (Some c) None None None None"

text \<open>The assignments \<^verbatim>\<open>node[key] = value\<close>.\<close>

fun set_type :: "node \<Rightarrow> string \<Rightarrow> node" where
  "set_type (Node ty cl fs th l r) v = Node (Some v) cl fs th l r"

fun set_class :: "node \<Rightarrow> int \<Rightarrow> node" where
  "set_class (Node ty cl fs th l r) v = Node ty (Some v) fs th l r"

fun set_feature_split :: "node \<Rightarrow> nat \<Rightarrow> node" where
  "set_feature_split (Node ty cl fs th l r) v = Node ty cl (Some v) th l r"

fun set_threshold :: "node \<Rightarrow> rat \<Rightarrow> node" where
  "set_threshold (Node ty cl fs th l r) v = Node ty cl fs (Some v) l r"

fun set_left_child :: "node \<Rightarrow> node \<Rightarrow> node" where
  "set_left_child (Node ty cl fs th l r) v = Node ty cl fs th (Some v) r"

fun set_right_child :: "node \<Rightarrow> node \<Rightarrow> node" where
  "set_right_child (Node ty cl fs th l r) v = Node ty cl fs th l (Some v)"

text \<open>
  A dictionary without the keys \<^verbatim>\<open>feature_split\<close>, \<^verbatim>\<open>threshold\<close>,
  \<^verbatim>\<open>left_child\<close> and \<^verbatim>\<open>right_child\<close> of a nonterminal node.
\<close>

definition leaf_keys_only :: "node \<Rightarrow> bool" where
  "leaf_keys_only n =
     (node_feature_split n = None \<and> node_threshold n = None
      \<and> node_left_child n = None \<and> node_right_child n = None)"

text \<open>
  A two-dimensional numpy array of shape \<open>(length (rows X), ncols X)\<close>; every row of a
  well-formed matrix has \<open>ncols X\<close> entries.
\<close>

record matrix =
  rows :: "rat list list"
  ncols :: nat

definition wf_matrix :: "matrix \<Rightarrow> bool" where
  "wf_matrix X = list_all (\<lambda>r. length r = ncols X) (rows X)"

text \<open>\<^verbatim>\<open>X[:, feature]\<close>.\<close>

definition column :: "matrix \<Rightarrow> nat \<Rightarrow> rat list" where
  "column X feature = map (\<lambda>r. r ! feature) (rows X)"

text \<open>\<^verbatim>\<open>X[mask]\<close>: the rows selected by a boolean mask.\<close>

definition select_rows :: "matrix \<Rightarrow> bool list \<Rightarrow> error + matrix" where
  "select_rows X bmask =
     (case mask_select (rows X) bmask of
        Inl e \<Rightarrow> Inl e
      | Inr rs \<Rightarrow> Inr (X\<lparr>rows := rs\<rparr>))"

record decision_tree =
  tree :: node
  feature_types :: "string list"
  max_depth :: "nat option"
  min_samples_split :: "nat option"
  min_samples_leaf :: "nat option"

text \<open>The constructor \<^verbatim>\<open>__init__\<close> (lines 73-81).\<close>

definition init ::
  "string list \<Rightarrow> nat option \<Rightarrow> nat option \<Rightarrow> nat option \<Rightarrow> error + decision_tree" where
  "init feature_types' max_depth' min_samples_split' min_samples_leaf' =
     (if np_any (map (\<lambda>x. x \<noteq> ''real'' \<and> x \<noteq> ''categorical'') feature_types') then
        Inl (ValueError ''There is unknown feature type'')
      else
        Inr \<lparr>tree = empty_node, feature_types = feature_types',
             max_depth = max_depth', min_samples_split = min_samples_split',
             min_samples_leaf = min_samples_leaf'\<rparr>)"

subsection \<open>Unpacking the result of find_best_split (line 107)\<close>

text \<open>
  The values that find_best_split puts in its result tuple: a sequence of numbers, a
  number, or \<^verbatim>\<open>None\<close>.
\<close>

datatype py_value = PySeq "rat list" | PyNum rat | PyNone

definition py_optional :: "rat option \<Rightarrow> py_value" where
  "py_optional v = (case v of None \<Rightarrow> PyNone | Some x \<Rightarrow> PyNum x)"

definition result_tuple :: "split_result \<Rightarrow> py_value list" where
  "result_tuple r =
     (case r of (thresholds, ginis, threshold_best, gini_best) \<Rightarrow>
        [PySeq thresholds, PySeq ginis, py_optional threshold_best, py_optional gini_best])"

text \<open>
  The assignment \<^verbatim>\<open>a, b = t\<close>: it succeeds on a tuple of exactly two components
  and raises ValueError on any other.
\<close>

fun unpack2 :: "py_value list \<Rightarrow> error + (py_value \<times> py_value)" where
  "unpack2 [a, b] = Inr (a, b)"
| "unpack2 [] = Inl (ValueError ''not enough values to unpack (expected 2, got 0)'')"
| "unpack2 [a] = Inl (ValueError ''not enough values to unpack (expected 2, got 1)'')"
| "unpack2 (a # b # c # cs) = Inl (ValueError ''too many values to unpack (expected 2)'')"

text \<open>
  \<^verbatim>\<open>ginis.max()\<close>, \<^verbatim>\<open>np.argmax(ginis)\<close> and \<^verbatim>\<open>thresholds[i]\<close> on such
  values. find_best_split returns its empty sequences as Python lists, which have no
  method \<^verbatim>\<open>max\<close>, and its non-empty ones as numpy arrays.
\<close>

fun py_max :: "py_value \<Rightarrow> error + rat" where
  "py_max (PySeq []) = Inl AttributeError"
| "py_max (PySeq (x # xs)) = Inr (list_max (x # xs))"
| "py_max (PyNum x) = Inl AttributeError"
| "py_max PyNone = Inl AttributeError"

fun py_argmax :: "py_value \<Rightarrow> error + nat" where
  "py_argmax (PySeq []) = Inl (ValueError ''attempt to get argmax of an empty sequence'')"
| "py_argmax (PySeq (x # xs)) = Inr (argmax (x # xs))"
| "py_argmax (PyNum x) = Inr 0"
| "py_argmax PyNone = Inl TypeError"

fun py_index :: "py_value \<Rightarrow> nat \<Rightarrow> error + rat" where
  "py_index (PySeq xs) i = (if i < length xs then Inr (xs ! i) else Inl IndexError)"
| "py_index (PyNum x) i = Inl TypeError"
| "py_index PyNone i = Inl TypeError"

subsection \<open>\<^verbatim>\<open>_fit_node\<close>\<close>

text \<open>
  The variables \<^verbatim>\<open>feature_best, threshold_best, gini_best, split\<close> of the search
  loop. All four are \<^verbatim>\<open>None\<close> at first (line 91) and lines 109-112 assign all
  four, so the state is \<open>None\<close> or the four values.
\<close>

type_synonym search_state = "(nat \<times> rat \<times> rat \<times> bool list) option"

text \<open>
  Lines 108-112, for the two values \<^verbatim>\<open>thresholds, ginis\<close> that line 107 unpacks.
  The condition is evaluated from left to right, so \<^verbatim>\<open>ginis.max()\<close> is not called
  in it when \<^verbatim>\<open>gini_best\<close> is \<^verbatim>\<open>None\<close>.
\<close>

definition update_best ::
  "arith \<Rightarrow> rat list \<Rightarrow> nat \<Rightarrow> py_value \<Rightarrow> py_value \<Rightarrow> search_state
     \<Rightarrow> error + search_state" where
  "update_best A feature_vector feature thresholds ginis s =
     (case (case s of
              None \<Rightarrow> Inr True
            | Some (feature_best, threshold_best, gini_best, split) \<Rightarrow>
                if ginis = PyNone then Inr False
                else (case py_max ginis of
                        Inl e \<Rightarrow> Inl e
                      | Inr m \<Rightarrow> Inr (m > gini_best))) of
        Inl e \<Rightarrow> Inl e
      | Inr False \<Rightarrow> Inr s
      | Inr True \<Rightarrow>
          (case py_max ginis of
             Inl e \<Rightarrow> Inl e
           | Inr gini_best' \<Rightarrow>
          (case py_argmax ginis of
             Inl e \<Rightarrow> Inl e
           | Inr i \<Rightarrow>
          (case py_index thresholds i of
             Inl e \<Rightarrow> Inl e
           | Inr threshold_best' \<Rightarrow>
               Inr (Some (feature, threshold_best', gini_best',
                          map (\<lambda>v. to_float A v < threshold_best') feature_vector))))))"

text \<open>
  The body of the loop over the feature columns (lines 93-112).
  \<^verbatim>\<open>self._feature_types[feature]\<close> raises IndexError past the end of the list.
\<close>

definition fit_feature ::
  "arith \<Rightarrow> string list \<Rightarrow> matrix \<Rightarrow> int list \<Rightarrow> search_state \<Rightarrow> nat
     \<Rightarrow> error + search_state" where
  "fit_feature A feature_types' sub_X sub_y s feature =
     (if length feature_types' \<le> feature then Inl IndexError
      else
        let feature_type = feature_types' ! feature in
        case (if feature_type = ''real'' then Inr (column sub_X feature)
              else if feature_type = ''categorical'' then
                encode_categorical A (column sub_X feature) sub_y
              else Inl (ValueError ''Unknown feature type'')) of
          Inl e \<Rightarrow> Inl e
        | Inr feature_vector \<Rightarrow>
        (case find_best_split A feature_vector sub_y of
          Inl e \<Rightarrow> Inl e
        | Inr r \<Rightarrow>
        (case unpack2 (result_tuple r) of
          Inl e \<Rightarrow> Inl e
        | Inr (thresholds, ginis) \<Rightarrow>
            update_best A feature_vector feature thresholds ginis s)))"

text \<open>
  \<^verbatim>\<open>Counter(sub_y).most_common(1)[0][0]\<close>: the first key with the greatest count;
  IndexError on an empty counter.
\<close>

fun most_common_from :: "'a \<times> nat \<Rightarrow> ('a \<times> nat) list \<Rightarrow> 'a \<times> nat" where
  "most_common_from best [] = best"
| "most_common_from best (kc # kcs) =
     most_common_from (if snd best < snd kc then kc else best) kcs"

definition most_common_key :: "('a \<times> nat) list \<Rightarrow> error + 'a" where
  "most_common_key c =
     (case c of [] \<Rightarrow> Inl IndexError | kc # kcs \<Rightarrow> Inr (fst (most_common_from kc kcs)))"

text \<open>The search loop of lines 91-112 over \<^verbatim>\<open>range(sub_X.shape[1])\<close>.\<close>

definition search_split ::
  "arith \<Rightarrow> string list \<Rightarrow> matrix \<Rightarrow> int list \<Rightarrow> error + search_state" where
  "search_split A feature_types' sub_X sub_y =
     for_each (fit_feature A feature_types' sub_X sub_y) None [0 ..< ncols sub_X]"

subsection \<open>The search loop cannot find a split\<close>

lemma unpack2_result_tuple:
  "unpack2 (result_tuple r) = Inl (ValueError ''too many values to unpack (expected 2)'')"
  by (cases r) (simp add: result_tuple_def)

lemma fit_feature_raises: "\<exists>e. fit_feature A fts sub_X sub_y s feature = Inl e"
proof (cases "length fts \<le> feature")
  case True
  then show ?thesis by (simp add: fit_feature_def)
next
  case False
  let ?fv = "if fts ! feature = ''real'' then Inr (column sub_X feature)
              else if fts ! feature = ''categorical'' then
                encode_categorical A (column sub_X feature) sub_y
              else Inl (ValueError ''Unknown feature type'')"
  show ?thesis
  proof (cases ?fv)
    case (Inl e)
    with False have "fit_feature A fts sub_X sub_y s feature = Inl e"
      unfolding fit_feature_def Let_def by (simp only: if_False sum.case)
    then show ?thesis by blast
  next
    case fv: (Inr feature_vector)
    show ?thesis
    proof (cases "find_best_split A feature_vector sub_y")
      case (Inl e)
      with False fv have "fit_feature A fts sub_X sub_y s feature = Inl e"
        unfolding fit_feature_def Let_def by (simp only: if_False sum.case)
      then show ?thesis by blast
    next
      case (Inr r)
      with False fv have "fit_feature A fts sub_X sub_y s feature =
          Inl (ValueError ''too many values to unpack (expected 2)'')"
        unfolding fit_feature_def Let_def
        by (simp only: if_False sum.case unpack2_result_tuple)
      then show ?thesis by blast
    qed
  qed
qed

lemma for_each_raises:
  assumes "\<And>s x. \<exists>e. body s x = Inl e"
  shows "for_each body s xs = Inr s' \<Longrightarrow> xs = [] \<and> s' = s"
proof (cases xs)
  case Nil
  then show "for_each body s xs = Inr s' \<Longrightarrow> xs = [] \<and> s' = s" by simp
next
  case (Cons x xs')
  from assms obtain e where "body s x = Inl e" by blast
  with Cons show "for_each body s xs = Inr s' \<Longrightarrow> xs = [] \<and> s' = s" by simp
qed

lemma search_split_Inr:
  assumes "search_split A fts sub_X sub_y = Inr s"
  shows "ncols sub_X = 0 \<and> s = None"
proof -
  from assms have "[0 ..< ncols sub_X] = [] \<and> s = None"
    unfolding search_split_def by (rule for_each_raises [OF fit_feature_raises])
  then show ?thesis by simp
qed

text \<open>
  \<^verbatim>\<open>_fit_node\<close> (lines 83-127). It writes into the dictionary \<^verbatim>\<open>node\<close> that it
  is given, so the result is the dictionary after the call, with the exception if one was
  raised: what was written before the exception stays written. The recursive calls of
  lines 126-127 are made only when the search loop has left a best split behind. The loop
  never does (\<open>search_split_Inr\<close>), since line 107 raises for every feature column; this
  is why the recursion terminates.
\<close>

function fit_node ::
  "arith \<Rightarrow> string list \<Rightarrow> matrix \<Rightarrow> int list \<Rightarrow> node \<Rightarrow> node \<times> error option" where
  "fit_node A feature_types' sub_X sub_y node =
     (if length (remdups sub_y) = 1 then
        (set_class (set_type node ''terminal'') (hd sub_y), None)
      else
        case search_split A feature_types' sub_X sub_y of
          Inl e \<Rightarrow> (node, Some e)
        | Inr None \<Rightarrow>
            (let node1 = set_type node ''terminal'' in
             case most_common_key (Counter sub_y) of
               Inl e \<Rightarrow> (node1, Some e)
             | Inr c \<Rightarrow> (set_class node1 c, None))
        | Inr (Some (feature_best, threshold_best, gini_best, split)) \<Rightarrow>
            (let node1 =
               set_right_child
                 (set_left_child
                    (set_threshold
                       (set_feature_split (set_type node ''nonterminal'') feature_best)
                       threshold_best)
                    empty_node)
                 empty_node
             in
             case select_rows sub_X split of
               Inl e \<Rightarrow> (node1, Some e)
             | Inr X_left \<Rightarrow>
            (case mask_select sub_y split of
               Inl e \<Rightarrow> (node1, Some e)
             | Inr y_left \<Rightarrow>
            (case fit_node A feature_types' X_left y_left empty_node of
               (left_child, Some e) \<Rightarrow> (set_left_child node1 left_child, Some e)
             | (left_child, None) \<Rightarrow>
            (let node2 = set_left_child node1 left_child in
             case select_rows sub_X (map Not split) of
               Inl e \<Rightarrow> (node2, Some e)
             | Inr X_right \<Rightarrow>
            (case mask_select sub_y (map Not split) of
               Inl e \<Rightarrow> (node2, Some e)
             | Inr y_right \<Rightarrow>
            (case fit_node A feature_types' X_right y_right empty_node of
               (right_child, err) \<Rightarrow> (set_right_child node2 right_child, err))))))))"
  by pat_completeness auto
termination
proof (relation "{}")
  show "wf ({} :: ((arith \<times> string list \<times> matrix \<times> int list \<times> node)
                   \<times> (arith \<times> string list \<times> matrix \<times> int list \<times> node)) set)"
    by simp
qed (auto dest: search_split_Inr)

declare fit_node.simps [simp del]

text \<open>
  fit (lines 149-150) hands \<^verbatim>\<open>self._tree\<close> to \<^verbatim>\<open>_fit_node\<close>, which fills it
  in place. The result is the object after the call, with the exception if one was raised.
\<close>

definition fit ::
  "arith \<Rightarrow> decision_tree \<Rightarrow> matrix \<Rightarrow> int list \<Rightarrow> decision_tree \<times> error option" where
  "fit A self X y =
     (case fit_node A (feature_types self) X y (tree self) of
        (fitted, err) \<Rightarrow> (self\<lparr>tree := fitted\<rparr>, err))"

subsection \<open>\<^verbatim>\<open>_predict_node\<close> and predict\<close>

text \<open>\<^verbatim>\<open>int(v)\<close> on a number: truncation towards zero.\<close>

definition py_int :: "rat \<Rightarrow> int" where
  "py_int v = (if 0 \<le> v then \<lfloor>v\<rfloor> else \<lceil>v\<rceil>)"

text \<open>\<^verbatim>\<open>d[key]\<close> on a dictionary entry that may be missing: KeyError when it is.\<close>

definition lookup :: "'a option \<Rightarrow> error + 'a" where
  "lookup v = (case v of None \<Rightarrow> Inl KeyError | Some x \<Rightarrow> Inr x)"

text \<open>
  \<^verbatim>\<open>_predict_node\<close> (lines 129-147). \<^verbatim>\<open>x[i]\<close> and
  \<^verbatim>\<open>self._feature_types[i]\<close> raise IndexError past the end.
\<close>

fun predict_node :: "arith \<Rightarrow> string list \<Rightarrow> rat list \<Rightarrow> node \<Rightarrow> error + int" where
  "predict_node A feature_types' x (Node ty cl fs th l r) =
     (case ty of
        None \<Rightarrow> Inl KeyError
      | Some node_type' \<Rightarrow>
        if node_type' = ''terminal'' then lookup cl
        else
        (case fs of
           None \<Rightarrow> Inl KeyError
         | Some feature_split \<Rightarrow>
           if length x \<le> feature_split then Inl IndexError
           else
             let feature_value = x ! feature_split in
             if length feature_types' \<le> feature_split then Inl IndexError
             else if feature_types' ! feature_split = ''real'' then
               (case th of
                  None \<Rightarrow> Inl KeyError
                | Some threshold \<Rightarrow>
                    if to_float A feature_value < threshold then
                      (case l of
                         None \<Rightarrow> Inl KeyError
                       | Some left_child \<Rightarrow> predict_node A feature_types' x left_child)
                    else
                      (case r of
                         None \<Rightarrow> Inl KeyError
                       | Some right_child \<Rightarrow> predict_node A feature_types' x right_child))
             else if feature_types' ! feature_split = ''categorical'' then
               (let category_index = py_int feature_value in
                case th of
                  None \<Rightarrow> Inl KeyError
                | Some threshold \<Rightarrow>
                    if to_float A (of_int category_index) < threshold then
                      (case l of
                         None \<Rightarrow> Inl KeyError
                       | Some left_child \<Rightarrow> predict_node A feature_types' x left_child)
                    else
                      (case r of
                         None \<Rightarrow> Inl KeyError
                       | Some right_child \<Rightarrow> predict_node A feature_types' x right_child))
             else Inl (ValueError ''Unknown feature type'')))"

text \<open>predict (lines 152-156): one prediction for each row, in the order of the rows.\<close>

definition predict :: "arith \<Rightarrow> decision_tree \<Rightarrow> matrix \<Rightarrow> error + int list" where
  "predict A self X =
     traverse (\<lambda>x. predict_node A (feature_types self) x (tree self)) (rows X)"

subsection \<open>The categorical encoding, in the words of the specification\<close>

text \<open>
  The statistic of a category: its number of occurrences in the column divided by its
  number of occurrences among the samples of the reference class (label 1), and 0 when it
  does not occur there.
\<close>

definition category_statistic :: "arith \<Rightarrow> rat list \<Rightarrow> int list \<Rightarrow> rat \<Rightarrow> rat" where
  "category_statistic A col sub_y cat =
     (if length (filter (\<lambda>(v, y). v = cat \<and> y = 1) (zip col sub_y)) = 0 then 0
      else fdiv A (of_nat (count_list col cat))
             (of_nat (length (filter (\<lambda>(v, y). v = cat \<and> y = 1) (zip col sub_y)))))"

section \<open>Properties\<close>

subsection \<open>Counter counts occurrences\<close>

lemma Counter_snoc: "Counter (xs @ [x]) = counter_add x (Counter xs)"
  by (simp add: Counter_def)

lemma map_of_counter_add:
  "map_of (counter_add x c) k =
     (if k = x then Some (case map_of c x of None \<Rightarrow> 1 | Some n \<Rightarrow> n + 1) else map_of c k)"
  by (induction x c rule: counter_add.induct) auto

lemma keys_counter_add: "fst ` set (counter_add x c) = insert x (fst ` set c)"
  by (induction x c rule: counter_add.induct) auto

lemma distinct_counter_add:
  "distinct (map fst c) \<Longrightarrow> distinct (map fst (counter_add x c))"
proof (induction x c rule: counter_add.induct)
  case (1 x)
  then show ?case by simp
next
  case (2 x k c kcs)
  then show ?case using keys_counter_add [of x kcs] by (auto simp del: keys_counter_add)
qed

lemma distinct_Counter: "distinct (map fst (Counter xs))"
proof (induction xs rule: rev_induct)
  case Nil
  show ?case by (simp add: Counter_def)
next
  case (snoc x xs)
  then show ?case by (simp add: Counter_snoc distinct_counter_add)
qed

lemma map_of_Counter:
  "map_of (Counter xs) k = (if k \<in> set xs then Some (count_list xs k) else None)"
proof (induction xs arbitrary: k rule: rev_induct)
  case Nil
  show ?case by (simp add: Counter_def)
next
  case (snoc x xs)
  show ?case by (simp add: Counter_snoc map_of_counter_add snoc count_list_0_iff)
qed

lemma set_Counter: "set (Counter xs) = (\<lambda>k. (k, count_list xs k)) ` set xs"
proof -
  have "(k, n) \<in> set (Counter xs) \<longleftrightarrow> k \<in> set xs \<and> n = count_list xs k" for k n
  proof -
    have "(k, n) \<in> set (Counter xs) \<longleftrightarrow> map_of (Counter xs) k = Some n"
      by (simp add: distinct_Counter)
    then show ?thesis by (auto simp: map_of_Counter)
  qed
  then show ?thesis by auto
qed

text \<open>The entries of a Counter stand in the order in which the keys were first seen.\<close>

lemma counter_add_map:
  assumes "distinct ks"
  shows "counter_add x (map (\<lambda>k. (k, f k)) ks) =
           (if x \<in> set ks then map (\<lambda>k. (k, if k = x then f k + 1 else f k)) ks
            else map (\<lambda>k. (k, f k)) ks @ [(x, 1)])"
  using assms by (induction ks) auto

lemma first_seen_snoc:
  "rev (remdups (rev (xs @ [x]))) =
     (if x \<in> set xs then rev (remdups (rev xs)) else rev (remdups (rev xs)) @ [x])"
  by simp

lemma Counter_first_seen:
  "Counter xs = map (\<lambda>k. (k, count_list xs k)) (rev (remdups (rev xs)))"
proof (induction xs rule: rev_induct)
  case Nil
  show ?case by (simp add: Counter_def)
next
  case (snoc x xs)
  let ?F = "rev (remdups (rev xs))"
  have d: "distinct ?F" by simp
  have s: "set ?F = set xs" by simp
  show ?case
  proof (cases "x \<in> set xs")
    case True
    then have "x \<in> set ?F" by (simp only: s)
    then have "counter_add x (map (\<lambda>k. (k, count_list xs k)) ?F) =
        map (\<lambda>k. (k, if k = x then count_list xs k + 1 else count_list xs k)) ?F"
      by (simp only: counter_add_map [OF d] if_True)
    also have "\<dots> = map (\<lambda>k. (k, count_list (xs @ [x]) k)) ?F"
      by (rule map_cong) auto
    finally show ?thesis
      using True by (simp only: Counter_snoc snoc first_seen_snoc if_True)
  next
    case False
    then have "x \<notin> set ?F" by (simp only: s not_False_eq_True)
    then have "counter_add x (map (\<lambda>k. (k, count_list xs k)) ?F) =
        map (\<lambda>k. (k, count_list xs k)) ?F @ [(x, 1)]"
      by (simp only: counter_add_map [OF d] if_False)
    also have "\<dots> = map (\<lambda>k. (k, count_list (xs @ [x]) k)) (?F @ [x])"
      using False by (auto simp: count_list_0_iff)
    finally show ?thesis
      using False by (simp only: Counter_snoc snoc first_seen_snoc if_False)
  qed
qed

lemma gini_of_counts_Counter:
  "gini_of_counts A (Counter part) (length part) = gini_impurity A part"
proof -
  have "map snd (Counter part) = map (count_list part) (classes part)"
    by (simp add: Counter_first_seen [of part] classes_def comp_def)
  then show ?thesis
    by (simp add: gini_of_counts_def gini_impurity_def comp_def)
qed

subsection \<open>find_best_split in closed form\<close>

lemma np_any_map: "np_any (map p xs) = (\<exists>x \<in> set xs. p x)"
  by (induction xs) (auto simp: np_any_def)

lemma np_any_filter: "np_any (map p xs) = (filter p xs \<noteq> [])"
  by (simp add: np_any_map filter_empty_conv)

lemma mask_sum_map: "mask_sum (map p xs) = length (filter p xs)"
  by (induction xs) (auto simp: mask_sum_def)

lemma select_by_mask:
  "length fv = length tv \<Longrightarrow>
     map fst (filter snd (zip tv (map p fv))) = map snd (filter (\<lambda>(v, y). p v) (zip fv tv))"
  by (induction fv tv rule: list_induct2) auto

lemma length_partition:
  "length fv = length tv \<Longrightarrow>
     length (map snd (filter (\<lambda>(v, y). p v) (zip fv tv))) = length (filter p fv)"
  by (induction fv tv rule: list_induct2) auto

lemma mask_select_left:
  "length fv = length tv \<Longrightarrow>
     mask_select tv (map (\<lambda>v. to_float A v < t) fv) = Inr (left_partition A fv tv t)"
  by (simp add: mask_select_def left_partition_def select_by_mask)

lemma mask_select_right:
  "length fv = length tv \<Longrightarrow>
     mask_select tv (map Not (map (\<lambda>v. to_float A v < t) fv))
       = Inr (right_partition A fv tv t)"
  by (simp add: mask_select_def right_partition_def
      select_by_mask [where p = "\<lambda>v. \<not> to_float A v < t"] comp_def)

lemma length_left_partition:
  "length fv = length tv \<Longrightarrow>
     length (left_partition A fv tv t) = length (filter (\<lambda>v. to_float A v < t) fv)"
  unfolding left_partition_def by (rule length_partition)

lemma length_right_partition:
  "length fv = length tv \<Longrightarrow>
     length (right_partition A fv tv t) = length (filter (\<lambda>v. \<not> to_float A v < t) fv)"
  unfolding right_partition_def by (rule length_partition)

lemma split_step_eq:
  assumes "length fv = length tv"
  shows "split_step A fv tv us (length tv) (ths, gs) i =
     (let t = midpoint A (us ! i) (us ! (i + 1)) in
      if retained A fv t then Inr (ths @ [t], gs @ [weighted_gini_score A fv tv t])
      else Inr (ths, gs))"
proof -
  let ?t = "fdiv A (vadd A (us ! i) (us ! (i + 1))) 2"
  have l: "mask_sum (map (\<lambda>v. to_float A v < ?t) fv) = length (left_partition A fv tv ?t)"
    by (simp add: mask_sum_map length_left_partition assms)
  have r: "mask_sum (map Not (map (\<lambda>v. to_float A v < ?t) fv))
             = length (right_partition A fv tv ?t)"
    by (simp add: mask_sum_map length_right_partition assms comp_def)
  have k: "(np_any (map (\<lambda>v. to_float A v < ?t) fv)
              \<and> np_any (map Not (map (\<lambda>v. to_float A v < ?t) fv))) = retained A fv ?t"
    by (simp add: np_any_filter retained_def comp_def)
  show ?thesis
    unfolding split_step_def midpoint_def Let_def prod.case k
    by (simp only: mask_select_left [OF assms] mask_select_right [OF assms] sum.case l r
        gini_of_counts_Counter weighted_gini_score_def)
qed

lemma for_each_split_step:
  assumes "length fv = length tv"
  shows "for_each (split_step A fv tv us (length tv)) (ths, gs) is =
     Inr (ths @ filter (retained A fv) (map (\<lambda>i. midpoint A (us ! i) (us ! (i + 1))) is),
          gs @ map (weighted_gini_score A fv tv)
                 (filter (retained A fv) (map (\<lambda>i. midpoint A (us ! i) (us ! (i + 1))) is)))"
proof (induction "is" arbitrary: ths gs)
  case Nil
  show ?case by simp
next
  case (Cons i "is")
  show ?case
    by (simp add: split_step_eq [OF assms] Let_def Cons)
qed

lemma midpoints_by_index:
  "map (\<lambda>i. midpoint A (us ! i) (us ! (i + 1))) [0 ..< length us - 1] = adjacent_midpoints A us"
  by (rule nth_equalityI) (simp_all add: adjacent_midpoints_def nth_tl)

lemma find_best_split_eq:
  assumes "length fv = length tv"
  shows "find_best_split A fv tv =
     (let ths = kept_thresholds A fv; gs = map (weighted_gini_score A fv tv) ths in
      if ths = [] then Inr ([], [], None, None)
      else Inr (ths, gs, Some (ths ! argmin gs), Some (gs ! argmin gs)))"
proof (cases "length (np_unique fv) < 2")
  case True
  then have "adjacent_midpoints A (np_unique fv) = []"
    by (cases "np_unique fv") (auto simp: adjacent_midpoints_def)
  with True show ?thesis
    by (simp add: find_best_split_def kept_thresholds_def)
next
  case False
  have e: "for_each (split_step A fv tv (np_unique fv) (length tv)) ([], [])
             [0 ..< length (np_unique fv) - 1] =
           Inr (kept_thresholds A fv, map (weighted_gini_score A fv tv) (kept_thresholds A fv))"
    unfolding for_each_split_step [OF assms] midpoints_by_index kept_thresholds_def by simp
  show ?thesis
    unfolding find_best_split_def Let_def e using False by simp
qed

lemma find_best_split_returns:
  assumes "length fv = length tv"
  shows "\<exists>r. find_best_split A fv tv = Inr r"
  by (simp add: find_best_split_eq [OF assms] Let_def)

subsection \<open>argmin and argmax\<close>

lemma list_min_Min: "xs \<noteq> [] \<Longrightarrow> list_min xs = Min (set xs)"
  by (induction xs rule: list_min.induct) simp_all

lemma list_max_Max: "xs \<noteq> [] \<Longrightarrow> list_max xs = Max (set xs)"
  by (induction xs rule: list_max.induct) simp_all

lemma first_index_less:
  "m \<in> set xs \<Longrightarrow> length (takeWhile (\<lambda>x. x \<noteq> m) xs) < length xs"
  by (induction xs) auto

lemma first_index_nth:
  "m \<in> set xs \<Longrightarrow> xs ! length (takeWhile (\<lambda>x. x \<noteq> m) xs) = m"
  by (induction xs) auto

lemma argmin_less: "xs \<noteq> [] \<Longrightarrow> argmin xs < length xs"
  unfolding argmin_def by (rule first_index_less) (simp add: list_min_Min)

lemma nth_argmin: "xs \<noteq> [] \<Longrightarrow> xs ! argmin xs = Min (set xs)"
  unfolding argmin_def by (subst first_index_nth) (simp_all add: list_min_Min)

subsection \<open>The loop of find_best_split keeps thresholds and scores parallel\<close>

lemma split_step_shape:
  assumes "split_step A fv tv us n (ths, gs) i = Inr r"
  shows "r = (ths, gs) \<or> (\<exists>t g. r = (ths @ [t], gs @ [g]))"
proof -
  let ?t = "fdiv A (vadd A (us ! i) (us ! (i + 1))) 2"
  let ?lm = "map (\<lambda>v. to_float A v < ?t) fv"
  show ?thesis
  proof (cases "np_any ?lm \<and> np_any (map Not ?lm)")
    case False
    then have "split_step A fv tv us n (ths, gs) i = Inr (ths, gs)"
      unfolding split_step_def Let_def prod.case by (simp only: if_False)
    with assms show ?thesis by simp
  next
    case c: True
    show ?thesis
    proof (cases "mask_select tv ?lm")
      case (Inl e)
      have "split_step A fv tv us n (ths, gs) i = Inl e"
        unfolding split_step_def Let_def prod.case
        by (simp only: c simp_thms if_True Inl sum.case)
      with assms show ?thesis by simp
    next
      case l: (Inr lt)
      show ?thesis
      proof (cases "mask_select tv (map Not ?lm)")
        case (Inl e)
        have "split_step A fv tv us n (ths, gs) i = Inl e"
          unfolding split_step_def Let_def prod.case
          by (simp only: c simp_thms if_True l Inl sum.case)
        with assms show ?thesis by simp
      next
        case (Inr rt)
        have "\<exists>g. split_step A fv tv us n (ths, gs) i = Inr (ths @ [?t], gs @ [g])"
          unfolding split_step_def Let_def prod.case
          by (simp only: c simp_thms if_True l Inr sum.case) blast
        with assms show ?thesis by auto
      qed
    qed
  qed
qed

lemma split_step_length:
  assumes "split_step A fv tv us n (ths, gs) i = Inr (ths', gs')" and "length ths = length gs"
  shows "length ths' = length gs'"
  using split_step_shape [OF assms(1)] assms(2) by auto

lemma for_each_split_step_length:
  assumes "for_each (split_step A fv tv us n) (ths, gs) is = Inr (ths', gs')"
    and "length ths = length gs"
  shows "length ths' = length gs'"
  using assms
proof (induction "is" arbitrary: ths gs)
  case Nil
  then show ?case by simp
next
  case (Cons i "is")
  from Cons.prems(1) obtain ths1 gs1
    where s: "split_step A fv tv us n (ths, gs) i = Inr (ths1, gs1)"
      and r: "for_each (split_step A fv tv us n) (ths1, gs1) is = Inr (ths', gs')"
    by (auto split: sum.splits)
  from s Cons.prems(2) have "length ths1 = length gs1" by (rule split_step_length)
  with r show ?case by (rule Cons.IH)
qed

lemma find_best_split_cases:
  assumes "find_best_split A fv tv = Inr (ths, gs, tb, gb)"
  shows "(ths = [] \<and> gs = [] \<and> tb = None \<and> gb = None)
       \<or> (gs \<noteq> [] \<and> length ths = length gs
            \<and> tb = Some (ths ! argmin gs) \<and> gb = Some (gs ! argmin gs))"
proof (cases "length (np_unique fv) < 2")
  case True
  then have "find_best_split A fv tv = Inr ([], [], None, None)"
    unfolding find_best_split_def Let_def by (simp only: if_True)
  with assms show ?thesis by simp
next
  case False
  let ?loop = "for_each (split_step A fv tv (np_unique fv) (length tv)) ([], [])
                [0 ..< length (np_unique fv) - 1]"
  have *: "find_best_split A fv tv = (case ?loop of
       Inl e \<Rightarrow> Inl e
     | Inr (ths1, gs1) \<Rightarrow>
         if gs1 \<noteq> [] then
           Inr (ths1, gs1, Some (ths1 ! argmin gs1), Some (gs1 ! argmin gs1))
         else Inr ([], [], None, None))"
    unfolding find_best_split_def Let_def using False by (simp only: if_False)
  show ?thesis
  proof (cases ?loop)
    case (Inl e)
    with * have "find_best_split A fv tv = Inl e" by (simp only: sum.case)
    with assms show ?thesis by simp
  next
    case (Inr p)
    obtain ths1 gs1 where p: "p = (ths1, gs1)" by (cases p)
    have "length ([] :: rat list) = length ([] :: rat list)" by simp
    with Inr [unfolded p] have len: "length ths1 = length gs1"
      by (rule for_each_split_step_length)
    from * Inr p have e: "find_best_split A fv tv =
        (if gs1 \<noteq> [] then
           Inr (ths1, gs1, Some (ths1 ! argmin gs1), Some (gs1 ! argmin gs1))
         else Inr ([], [], None, None))"
      by (simp only: sum.case prod.case)
    show ?thesis
    proof (cases "gs1 = []")
      case True
      with e have "find_best_split A fv tv = Inr ([], [], None, None)"
        by simp
      with assms show ?thesis by simp
    next
      case False
      with e have "find_best_split A fv tv =
          Inr (ths1, gs1, Some (ths1 ! argmin gs1), Some (gs1 ! argmin gs1))"
        by simp
      with assms have "Inr (ths, gs, tb, gb) =
          (Inr (ths1, gs1, Some (ths1 ! argmin gs1), Some (gs1 ! argmin gs1))
             :: error + split_result)"
        by (rule trans [OF sym])
      then have "ths = ths1" "gs = gs1" "tb = Some (ths1 ! argmin gs1)"
        "gb = Some (gs1 ! argmin gs1)"
        by (simp_all only: sum.inject prod.inject)
      with False len show ?thesis by (simp only: simp_thms)
    qed
  qed
qed

subsection \<open>The candidate thresholds\<close>

lemma length_np_unique: "length (np_unique xs) = card (set xs)"
  by (simp add: np_unique_def length_remdups_card_conv)

lemma set_np_unique: "set (np_unique xs) = set xs"
  by (simp add: np_unique_def)

lemma strict_sorted_np_unique: "sorted_wrt (<) (np_unique xs)"
  by (simp add: np_unique_def strict_sorted_iff)

lemma length_adjacent_midpoints: "length (adjacent_midpoints A us) = length us - 1"
  by (simp add: adjacent_midpoints_def)

lemma nth_adjacent_midpoints:
  "i < length us - 1 \<Longrightarrow> adjacent_midpoints A us ! i = midpoint A (us ! i) (us ! (i + 1))"
  by (simp add: adjacent_midpoints_def nth_tl)



text \<open>
  In the arithmetic without rounding the midpoint of two distinct values of the vector has
  a value of the vector on each side, so no candidate is discarded.
\<close>

lemma retained_midpoint_exact:
  assumes "t \<in> set (adjacent_midpoints exact_arith (np_unique fv))"
  shows "retained exact_arith fv t"
proof -
  let ?us = "np_unique fv"
  from assms obtain i where i: "i < length ?us - 1"
    and t: "t = midpoint exact_arith (?us ! i) (?us ! (i + 1))"
    by (auto simp: in_set_conv_nth length_adjacent_midpoints nth_adjacent_midpoints)
  from t have t': "t = (?us ! i + ?us ! (i + 1)) / 2"
    by (simp add: midpoint_def exact_arith_def)
  from i have lt: "?us ! i < ?us ! (i + 1)"
    using strict_sorted_np_unique [of fv] by (simp add: sorted_wrt_nth_less)
  from i have "?us ! i \<in> set ?us" and "?us ! (i + 1) \<in> set ?us"
    by simp_all
  then have a: "?us ! i \<in> set fv" and b: "?us ! (i + 1) \<in> set fv"
    by (simp_all only: set_np_unique)
  from lt t' have "?us ! i < t" and "\<not> ?us ! (i + 1) < t"
    by simp_all
  then have "to_float exact_arith (?us ! i) < t"
    and "\<not> to_float exact_arith (?us ! (i + 1)) < t"
    by (simp_all add: exact_arith_def)
  with a b show ?thesis
    unfolding retained_def filter_empty_conv by blast
qed

lemma kept_thresholds_exact:
  "kept_thresholds exact_arith fv = adjacent_midpoints exact_arith (np_unique fv)"
  unfolding kept_thresholds_def
  by (rule filter_True [rule_format]) (rule retained_midpoint_exact)

subsection \<open>find_best_split on concrete vectors\<close>

lemmas arith_simps =
  exact_arith_def int64_arith_def wrap64_def py_sum_def midpoint_def

lemmas scorer_simps =
  find_best_split_def np_unique_def split_step_def np_any_def mask_select_def
  mask_sum_def Counter_def gini_of_counts_def argmin_def

lemma find_best_split_example:
  "find_best_split exact_arith [1, 1, 2, 2] [0, 0, 1, 1]
     = Inr ([3 / 2], [0], Some (3 / 2), Some 0)"
  by (simp add: scorer_simps arith_simps)

lemma find_best_split_example3:
  "find_best_split exact_arith [1, 2, 3] [0, 1, 1] =
     Inr ([3 / 2, 5 / 2], [0, 1 / 3], Some (3 / 2), Some 0)"
  by (simp add: scorer_simps arith_simps)

lemma find_best_split_wrapped:
  "find_best_split int64_arith [4611686018427387904, 4611686018427388928] [0, 1]
     = Inr ([], [], None, None)"
  by (simp add: scorer_simps arith_simps)
subsection \<open>Claims about find_best_split\<close>

text \<open>
  C6: whatever the label vector, a feature vector with fewer than two distinct values
  makes find_best_split return the empty threshold and score sequences and None for the
  best threshold and the best score; it raises nothing (the result is an \<open>Inr\<close>).
\<close>

theorem find_best_split_few_distinct:
  assumes "card (set feature_vector) < 2"
  shows "find_best_split A feature_vector target_vector = Inr ([], [], None, None)"
proof -
  from assms have "length (np_unique feature_vector) < 2"
    by (simp only: length_np_unique)
  then show ?thesis
    unfolding find_best_split_def Let_def by (simp only: if_True)
qed

theorem find_best_split_few_distinct_witness:
  "card (set [5, 5, 5 :: rat]) < 2
   \<and> find_best_split exact_arith [5, 5, 5] [0, 1] = Inr ([], [], None, None)"
proof -
  have h: "card (set [5, 5, 5 :: rat]) < 2" by simp
  from h find_best_split_few_distinct [OF h, of exact_arith "[0, 1]"]
  show ?thesis by (rule conjI)
qed

text \<open>
  C3: when find_best_split returns a non-empty score sequence, the best score it returns
  is the least element of that sequence, and the best threshold is the threshold at a
  position whose score is that least element.
\<close>

theorem find_best_split_best_is_min:
  assumes "find_best_split A feature_vector target_vector =
             Inr (thresholds, ginis, threshold_best, gini_best)"
    and "ginis \<noteq> []"
  shows "gini_best = Some (Min (set ginis))
       \<and> (\<exists>i. i < length thresholds \<and> i < length ginis
              \<and> threshold_best = Some (thresholds ! i) \<and> ginis ! i = Min (set ginis))"
proof -
  from find_best_split_cases [OF assms(1)] assms(2)
  have l: "length thresholds = length ginis"
    and t: "threshold_best = Some (thresholds ! argmin ginis)"
    and g: "gini_best = Some (ginis ! argmin ginis)"
    by blast+
  from assms(2) have a: "argmin ginis < length ginis" by (rule argmin_less)
  from assms(2) have m: "ginis ! argmin ginis = Min (set ginis)" by (rule nth_argmin)
  from g m have "gini_best = Some (Min (set ginis))" by simp
  moreover from a l t m
  have "argmin ginis < length thresholds \<and> argmin ginis < length ginis
      \<and> threshold_best = Some (thresholds ! argmin ginis)
      \<and> ginis ! argmin ginis = Min (set ginis)"
    by simp
  ultimately show ?thesis by blast
qed

theorem find_best_split_best_is_min_witness:
  "find_best_split exact_arith [1, 2, 3] [0, 1, 1]
     = Inr ([3 / 2, 5 / 2], [0, 1 / 3], Some (3 / 2), Some 0)
   \<and> [0, 1 / 3 :: rat] \<noteq> []
   \<and> Some (0 :: rat) = Some (Min (set [0, 1 / 3]))
   \<and> (\<exists>i. i < length [3 / 2, 5 / 2 :: rat] \<and> i < length [0, 1 / 3 :: rat]
          \<and> Some (3 / 2 :: rat) = Some ([3 / 2, 5 / 2] ! i)
          \<and> [0, 1 / 3 :: rat] ! i = Min (set [0, 1 / 3]))"
proof -
  have n: "[0, 1 / 3 :: rat] \<noteq> []" by simp
  note r = find_best_split_best_is_min [OF find_best_split_example3 n]
  from r have a: "Some (0 :: rat) = Some (Min (set [0, 1 / 3]))" by (rule conjunct1)
  from r have b: "\<exists>i. i < length [3 / 2, 5 / 2 :: rat] \<and> i < length [0, 1 / 3 :: rat]
          \<and> Some (3 / 2 :: rat) = Some ([3 / 2, 5 / 2] ! i)
          \<and> [0, 1 / 3 :: rat] ! i = Min (set [0, 1 / 3])" by (rule conjunct2)
  from find_best_split_example3 n a b show ?thesis by (intro conjI)
qed





lemma weighted_gini_score_example:
  "weighted_gini_score exact_arith [1, 2, 3] [0, 1, 1] (5 / 2) = 1 / 3"
  by (simp add: weighted_gini_score_def left_partition_def right_partition_def
      gini_impurity_def classes_def arith_simps)


subsection \<open>The categorical encoding ranks every category\<close>

lemma traverse_map:
  assumes "\<And>x. x \<in> set xs \<Longrightarrow> f x = Inr (g x)"
  shows "traverse f xs = Inr (map g xs)"
  using assms by (induction xs) simp_all

lemma keys_Counter: "set (map fst (Counter xs)) = set xs"
  by (simp only: set_map set_Counter image_image fst_conv image_ident)

lemma counter_get_Counter: "counter_get (Counter xs) k = count_list xs k"
  by (simp add: counter_get_def map_of_Counter count_list_0_iff)

lemma counter_mem_Counter: "counter_mem k (Counter xs) = (k \<in> set xs)"
  by (simp add: counter_mem_def map_of_Counter)

lemma count_list_clicked:
  "length col = length sub_y \<Longrightarrow>
     count_list (map fst (filter snd (zip col (map (\<lambda>y. y = 1) sub_y)))) cat
       = length (filter (\<lambda>(v, y). v = cat \<and> y = 1) (zip col sub_y))"
  by (induction col sub_y rule: list_induct2) auto

lemma ratio_entry_Counter:
  assumes "length col = length sub_y"
    and "clicked = map fst (filter snd (zip col (map (\<lambda>y. y = (1::int)) sub_y)))"
  shows "ratio_entry A (Counter col) (Counter clicked) cat =
           Inr (cat, category_statistic A col sub_y cat)"
proof -
  have c: "count_list clicked cat =
      length (filter (\<lambda>(v, y). v = cat \<and> y = 1) (zip col sub_y))"
    unfolding assms(2) using assms(1) by (rule count_list_clicked)
  show ?thesis
  proof (cases "cat \<in> set clicked")
    case True
    then have "count_list clicked cat \<noteq> 0" by (simp add: count_list_0_iff)
    with True c show ?thesis
      by (simp add: ratio_entry_def counter_mem_Counter counter_get_Counter py_div_def
          category_statistic_def)
  next
    case False
    then have "count_list clicked cat = 0" by (simp add: count_list_0_iff)
    with False c show ?thesis
      by (simp add: ratio_entry_def counter_mem_Counter category_statistic_def)
  qed
qed

lemma enumerate_categories_zip:
  "enumerate_categories sc = zip (map fst sc) [0 ..< length sc]"
  unfolding enumerate_categories_def
  by (rule nth_equalityI) (simp_all add: nth_enumerate_eq split_beta)

lemma dict_get_enumerate:
  assumes "distinct (map fst sc)" and "i < length sc"
  shows "dict_get (enumerate_categories sc) (fst (sc ! i)) = Inr i"
proof -
  let ?d = "enumerate_categories sc"
  have f: "map fst ?d = map fst sc"
    by (simp add: enumerate_categories_zip)
  from assms(2) have "(fst (sc ! i), i) \<in> set ?d"
    unfolding enumerate_categories_zip in_set_zip by (intro exI [of _ i]) simp
  then have "(fst (sc ! i), i) \<in> set (rev ?d)" by simp
  moreover from assms(1) have "distinct (map fst (rev ?d))"
    by (simp add: f rev_map [symmetric])
  ultimately have "map_of (rev ?d) (fst (sc ! i)) = Some i"
    by (simp only: map_of_eq_Some_iff)
  then show ?thesis by (simp add: dict_get_def)
qed

text \<open>The ranks given to the keys of a list of (category, statistic) pairs.\<close>

lemma ranks_of_sorted:
  fixes ratio :: "(rat \<times> rat) list"
  assumes d: "distinct (map fst ratio)"
    and st: "\<And>p. p \<in> set ratio \<Longrightarrow> snd p = stat (fst p)"
    and sub: "set col \<subseteq> fst ` set ratio"
  defines "sc \<equiv> sort_key snd ratio"
  shows "\<exists>rank. traverse (dict_get (enumerate_categories sc)) col = Inr (map rank col)
           \<and> bij_betw rank (fst ` set ratio) {0 ..< length ratio}
           \<and> (\<forall>a \<in> fst ` set ratio. \<forall>b \<in> fst ` set ratio.
                 rank a < rank b \<longrightarrow> stat a \<le> stat b)"
proof -
  have len: "length sc = length ratio" by (simp add: sc_def)
  have set_sc: "set sc = set ratio" by (simp add: sc_def)
  have dsc: "distinct (map fst sc)"
    using d by (simp add: sc_def distinct_map)
  have sorted_sc: "sorted (map snd sc)" by (simp add: sc_def)
  define rank where "rank a = (case dict_get (enumerate_categories sc) a of Inr i \<Rightarrow> i | Inl e \<Rightarrow> 0)" for a
  have rank_nth: "rank (fst (sc ! i)) = i" if "i < length sc" for i
    by (simp add: rank_def dict_get_enumerate [OF dsc that])
  have keys: "fst ` set ratio = {fst (sc ! i) | i. i < length sc}"
  proof -
    have "set sc = {sc ! i | i. i < length sc}" by (rule set_conv_nth)
    then have "fst ` set sc = {fst (sc ! i) | i. i < length sc}" by force
    then show ?thesis by (simp only: set_sc)
  qed
  have t: "traverse (dict_get (enumerate_categories sc)) col = Inr (map rank col)"
  proof (rule traverse_map)
    fix x assume "x \<in> set col"
    with sub keys obtain i where i: "i < length sc" and x: "x = fst (sc ! i)" by blast
    show "dict_get (enumerate_categories sc) x = Inr (rank x)"
      by (simp only: x rank_nth [OF i] dict_get_enumerate [OF dsc i])
  qed
  have b: "bij_betw rank (fst ` set ratio) {0 ..< length ratio}"
  proof (rule bij_betw_byWitness [where f' = "\<lambda>i. fst (sc ! i)"])
    show "\<forall>a \<in> fst ` set ratio. fst (sc ! rank a) = a"
      using keys rank_nth by auto
    show "\<forall>i \<in> {0 ..< length ratio}. rank (fst (sc ! i)) = i"
      using rank_nth len by simp
    show "rank ` fst ` set ratio \<subseteq> {0 ..< length ratio}"
      using keys rank_nth len by auto
    show "(\<lambda>i. fst (sc ! i)) ` {0 ..< length ratio} \<subseteq> fst ` set ratio"
      using keys len by auto
  qed
  have m: "stat a \<le> stat b"
    if "a \<in> fst ` set ratio" "b \<in> fst ` set ratio" "rank a < rank b" for a b
  proof -
    from that(1) keys obtain i where i: "i < length sc" and a: "a = fst (sc ! i)" by blast
    from that(2) keys obtain j where j: "j < length sc" and b: "b = fst (sc ! j)" by blast
    from that(3) have ij: "i < j" by (simp only: a b rank_nth [OF i] rank_nth [OF j])
    from sorted_sc ij j have "map snd sc ! i \<le> map snd sc ! j"
      by (simp add: sorted_iff_nth_mono)
    with i j have le: "snd (sc ! i) \<le> snd (sc ! j)" by simp
    from i have "sc ! i \<in> set ratio" unfolding set_sc [symmetric] by simp
    then have si: "snd (sc ! i) = stat a" unfolding a by (rule st)
    from j have "sc ! j \<in> set ratio" unfolding set_sc [symmetric] by simp
    then have sj: "snd (sc ! j) = stat b" unfolding b by (rule st)
    from le show ?thesis by (simp only: si sj)
  qed
  from t b m show ?thesis by blast
qed

lemma encode_categorical_ranks:
  assumes "length col = length sub_y"
  shows "\<exists>rank. encode_categorical A col sub_y = Inr (map (\<lambda>x. of_nat (rank x)) col)
           \<and> bij_betw rank (set col) {0 ..< card (set col)}
           \<and> (\<forall>a \<in> set col. \<forall>b \<in> set col.
                 rank a < rank b \<longrightarrow>
                   category_statistic A col sub_y a \<le> category_statistic A col sub_y b)"
proof -
  define clicked where "clicked = map fst (filter snd (zip col (map (\<lambda>y. y = (1::int)) sub_y)))"
  define ratio where
    "ratio = map (\<lambda>cat. (cat, category_statistic A col sub_y cat)) (map fst (Counter col))"
  have ms: "mask_select col (map (\<lambda>y. y = 1) sub_y) = Inr clicked"
    using assms by (simp add: mask_select_def clicked_def)
  have tr: "traverse (ratio_entry A (Counter col) (Counter clicked)) (map fst (Counter col))
              = Inr ratio"
    unfolding ratio_def
    by (rule traverse_map) (rule ratio_entry_Counter [OF assms clicked_def])
  have fst_ratio: "map fst ratio = map fst (Counter col)"
    by (simp add: ratio_def comp_def)
  have d: "distinct (map fst ratio)"
    by (simp only: fst_ratio distinct_Counter)
  have keys: "fst ` set ratio = set col"
    using keys_Counter [of col] by (simp only: fst_ratio [symmetric] set_map)
  have len: "length ratio = card (set col)"
  proof -
    have "length ratio = length (map fst ratio)" by simp
    also have "\<dots> = card (set (map fst ratio))"
      using d by (rule distinct_card [symmetric])
    also have "\<dots> = card (set col)" by (simp only: set_map keys)
    finally show ?thesis .
  qed
  have st: "snd p = category_statistic A col sub_y (fst p)" if "p \<in> set ratio" for p
    using that by (auto simp: ratio_def)
  have sub: "set col \<subseteq> fst ` set ratio" by (simp only: keys subset_refl)
  from ranks_of_sorted [OF d st sub]
  obtain rank where
    t: "traverse (dict_get (enumerate_categories (sort_key snd ratio))) col = Inr (map rank col)"
    and b: "bij_betw rank (fst ` set ratio) {0 ..< length ratio}"
    and m: "\<forall>a \<in> fst ` set ratio. \<forall>b \<in> fst ` set ratio.
              rank a < rank b \<longrightarrow>
                category_statistic A col sub_y a \<le> category_statistic A col sub_y b"
    by blast
  have "encode_categorical A col sub_y = Inr (map of_nat (map rank col))"
    unfolding encode_categorical_def Let_def by (simp only: ms tr t sum.case)
  then have e: "encode_categorical A col sub_y = Inr (map (\<lambda>x. of_nat (rank x)) col)"
    by (simp add: comp_def)
  from b have b': "bij_betw rank (set col) {0 ..< card (set col)}"
    by (simp only: keys len)
  from m have m': "\<forall>a \<in> set col. \<forall>b \<in> set col.
              rank a < rank b \<longrightarrow>
                category_statistic A col sub_y a \<le> category_statistic A col sub_y b"
    by (simp only: keys)
  from e b' m' show ?thesis by blast
qed

lemma encode_categorical_length:
  assumes "length col = length sub_y"
  shows "\<exists>fv. encode_categorical A col sub_y = Inr fv \<and> length fv = length col"
proof -
  from encode_categorical_ranks [OF assms]
  obtain rank where "encode_categorical A col sub_y = Inr (map (\<lambda>x. of_nat (rank x)) col)"
    by blast
  then show ?thesis by simp
qed

lemma encode_categorical_example:
  "encode_categorical exact_arith [7, 8, 7, 9, 8, 7] [1, 1, 0, 0, 0, 1]
     = Inr [1, 2, 1, 0, 2, 1]"
  by (simp add: encode_categorical_def mask_select_def Counter_def ratio_entry_def
      counter_mem_def counter_get_def py_div_def enumerate_categories_def dict_get_def
      exact_arith_def)

subsection \<open>What \<^verbatim>\<open>_fit_node\<close> returns\<close>

lemma length_column: "length (column X feature) = length (rows X)"
  by (simp add: column_def)

lemma fit_feature_unpack:
  assumes f: "feature < length fts"
    and k: "fts ! feature = ''real'' \<or> fts ! feature = ''categorical''"
    and l: "length (rows sub_X) = length sub_y"
  shows "fit_feature A fts sub_X sub_y s feature =
           Inl (ValueError ''too many values to unpack (expected 2)'')"
proof -
  let ?fv = "if fts ! feature = ''real'' then Inr (column sub_X feature)
              else if fts ! feature = ''categorical'' then
                encode_categorical A (column sub_X feature) sub_y
              else Inl (ValueError ''Unknown feature type'')"
  from l have lc: "length (column sub_X feature) = length sub_y"
    by (simp only: length_column)
  have "\<exists>fv. ?fv = Inr fv \<and> length fv = length sub_y"
  proof (cases "fts ! feature = ''real''")
    case True
    with lc show ?thesis by simp
  next
    case False
    with k have c: "fts ! feature = ''categorical''" by simp
    from encode_categorical_length [OF lc] lc
    have "\<exists>fv. encode_categorical A (column sub_X feature) sub_y = Inr fv
            \<and> length fv = length sub_y"
      by simp
    with False c show ?thesis by simp
  qed
  then obtain fv where fv: "?fv = Inr fv" and lfv: "length fv = length sub_y" by blast
  from find_best_split_returns [OF lfv] obtain r where r: "find_best_split A fv sub_y = Inr r"
    by blast
  from f have nf: "\<not> length fts \<le> feature" by simp
  show ?thesis
    unfolding fit_feature_def Let_def
    by (simp only: nf if_False fv sum.case r unpack2_result_tuple)
qed

lemma search_split_no_columns:
  assumes "ncols sub_X = 0"
  shows "search_split A fts sub_X sub_y = Inr None"
  using assms by (simp add: search_split_def)

lemma search_split_raises:
  assumes "0 < ncols sub_X"
  shows "\<exists>e. search_split A fts sub_X sub_y = Inl e"
proof -
  from assms have u: "[0 ..< ncols sub_X] = 0 # [1 ..< ncols sub_X]"
    by (simp add: upt_conv_Cons)
  from fit_feature_raises [of A fts sub_X sub_y None 0]
  obtain e where "fit_feature A fts sub_X sub_y None 0 = Inl e" by blast
  then have "search_split A fts sub_X sub_y = Inl e"
    unfolding search_split_def u by simp
  then show ?thesis by blast
qed

lemma search_split_unpack:
  assumes "0 < ncols sub_X" and "0 < length fts"
    and "fts ! 0 = ''real'' \<or> fts ! 0 = ''categorical''"
    and "length (rows sub_X) = length sub_y"
  shows "search_split A fts sub_X sub_y =
           Inl (ValueError ''too many values to unpack (expected 2)'')"
proof -
  from assms(1) have u: "[0 ..< ncols sub_X] = 0 # [1 ..< ncols sub_X]"
    by (simp add: upt_conv_Cons)
  show ?thesis
    unfolding search_split_def u
    by (simp add: fit_feature_unpack [OF assms(2) assms(3) assms(4)])
qed

lemma pure_labels:
  assumes "y \<noteq> []" and "\<forall>l \<in> set y. l = c"
  shows "length (remdups y) = 1 \<and> hd y = c"
proof -
  from assms have "set y = {c}" by (cases y) auto
  then have "card (set y) = 1" by simp
  then have "length (remdups y) = 1" by (simp only: length_remdups_card_conv)
  moreover from assms have "hd y = c" by (cases y) auto
  ultimately show ?thesis by simp
qed

lemma fit_node_pure:
  assumes "length (remdups sub_y) = 1"
  shows "fit_node A fts sub_X sub_y node =
           (set_class (set_type node ''terminal'') (hd sub_y), None)"
  by (subst fit_node.simps) (simp only: assms simp_thms if_True)

lemma fit_node_mixed:
  assumes "length (remdups sub_y) \<noteq> 1"
  shows "fit_node A fts sub_X sub_y node =
     (case search_split A fts sub_X sub_y of
        Inl e \<Rightarrow> (node, Some e)
      | Inr s \<Rightarrow>
          (case most_common_key (Counter sub_y) of
             Inl e \<Rightarrow> (set_type node ''terminal'', Some e)
           | Inr c \<Rightarrow> (set_class (set_type node ''terminal'') c, None)))"
proof (cases "search_split A fts sub_X sub_y")
  case (Inl e)
  show ?thesis
    by (subst fit_node.simps) (simp only: assms if_False Inl sum.case)
next
  case (Inr s)
  from search_split_Inr [OF Inr] have s: "s = None" by simp
  show ?thesis
    by (subst fit_node.simps) (simp only: assms if_False Inr s sum.case option.case Let_def)
qed

lemma fit_node_unpack:
  assumes "length (remdups sub_y) \<noteq> 1" and "0 < ncols sub_X" and "0 < length fts"
    and "fts ! 0 = ''real'' \<or> fts ! 0 = ''categorical''"
    and "length (rows sub_X) = length sub_y"
  shows "fit_node A fts sub_X sub_y node =
           (node, Some (ValueError ''too many values to unpack (expected 2)''))"
  by (simp only: fit_node_mixed [OF assms(1)]
      search_split_unpack [OF assms(2) assms(3) assms(4) assms(5)] sum.case)

lemma fit_node_empty_no_columns:
  assumes "ncols sub_X = 0"
  shows "fit_node A fts sub_X [] node = (set_type node ''terminal'', Some IndexError)"
proof -
  have n: "length (remdups ([] :: int list)) \<noteq> 1" by simp
  have m: "most_common_key (Counter ([] :: int list)) = Inl IndexError"
    by (simp add: Counter_def most_common_key_def)
  show ?thesis
    by (simp only: fit_node_mixed [OF n] search_split_no_columns [OF assms] m sum.case)
qed

lemma fit_node_no_columns:
  assumes "length (remdups sub_y) \<noteq> 1" and "ncols sub_X = 0" and "sub_y \<noteq> []"
  shows "\<exists>c. fit_node A fts sub_X sub_y node = (set_class (set_type node ''terminal'') c, None)"
proof -
  from assms(3) have "Counter sub_y \<noteq> []"
    using keys_Counter [of sub_y] by auto
  then obtain c where "most_common_key (Counter sub_y) = Inr c"
    by (cases "Counter sub_y") (simp_all add: most_common_key_def)
  then have "fit_node A fts sub_X sub_y node = (set_class (set_type node ''terminal'') c, None)"
    by (simp only: fit_node_mixed [OF assms(1)] search_split_no_columns [OF assms(2)] sum.case)
  then show ?thesis by blast
qed

subsection \<open>Terminal nodes\<close>

lemma set_terminal_empty: "set_class (set_type empty_node ''terminal'') c = Terminal c"
  by (simp add: empty_node_def Terminal_def)

lemma set_terminal_leaf:
  assumes "leaf_keys_only n"
  shows "set_class (set_type n ''terminal'') c = Terminal c"
  using assms by (cases n) (simp add: Terminal_def leaf_keys_only_def)

lemma leaf_keys_only_empty: "leaf_keys_only empty_node"
  by (simp add: leaf_keys_only_def empty_node_def)

lemma leaf_keys_only_set_type: "leaf_keys_only (set_type n v) = leaf_keys_only n"
  by (cases n) (simp add: leaf_keys_only_def)

lemma leaf_keys_only_set_class: "leaf_keys_only (set_class n v) = leaf_keys_only n"
  by (cases n) (simp add: leaf_keys_only_def)

text \<open>
  \<^verbatim>\<open>_fit_node\<close> never writes the keys of a nonterminal node: the tree of an object
  that was constructed and then fitted any number of times has none of them.
\<close>

lemma fit_node_leaf_keys_only:
  assumes "leaf_keys_only node"
  shows "leaf_keys_only (fst (fit_node A fts sub_X sub_y node))"
proof (cases "length (remdups sub_y) = 1")
  case True
  with assms show ?thesis
    by (simp add: fit_node_pure leaf_keys_only_set_type leaf_keys_only_set_class)
next
  case False
  with assms show ?thesis
    by (simp add: fit_node_mixed leaf_keys_only_set_type leaf_keys_only_set_class
        split: sum.splits)
qed

lemma predict_node_terminal:
  "predict_node A fts x (set_class (set_type n ''terminal'') c) = Inr c"
  by (cases n) (simp add: lookup_def)

lemma predict_node_no_class:
  "predict_node A fts x (Node (Some ''terminal'') None None None None None) = Inl KeyError"
  by (simp add: lookup_def)

lemma predict_terminal:
  "predict A (self\<lparr>tree := set_class (set_type n ''terminal'') c\<rparr>) X
     = Inr (map (\<lambda>x. c) (rows X))"
  unfolding predict_def by (rule traverse_map) (simp add: predict_node_terminal)

lemma init_valid:
  assumes "init fts md mss msl = Inr self"
  shows "feature_types self = fts \<and> tree self = empty_node
       \<and> (\<forall>t \<in> set fts. t = ''real'' \<or> t = ''categorical'')"
proof (cases "\<exists>t \<in> set fts. t \<noteq> ''real'' \<and> t \<noteq> ''categorical''")
  case True
  then have "init fts md mss msl = Inl (ValueError ''There is unknown feature type'')"
    unfolding init_def np_any_map by (simp only: if_True)
  with assms show ?thesis by simp
next
  case False
  then have "init fts md mss msl =
      Inr \<lparr>tree = empty_node, feature_types = fts, max_depth = md,
           min_samples_split = mss, min_samples_leaf = msl\<rparr>"
    unfolding init_def np_any_map by (simp only: if_False)
  with assms have "self = \<lparr>tree = empty_node, feature_types = fts, max_depth = md,
           min_samples_split = mss, min_samples_leaf = msl\<rparr>"
    by simp
  with False show ?thesis by auto
qed

lemma init_example:
  "init [''real''] None None None =
     Inr \<lparr>tree = empty_node, feature_types = [''real''], max_depth = None,
          min_samples_split = None, min_samples_leaf = None\<rparr>"
  by (simp add: init_def np_any_def)

lemma predict_no_class:
  assumes "rows X \<noteq> []"
  shows "predict A (self\<lparr>tree := Node (Some ''terminal'') None None None None None\<rparr>) X
           = Inl KeyError"
  using assms unfolding predict_def by (cases "rows X") (simp_all add: lookup_def)

lemma set_type_empty:
  "set_type empty_node ''terminal'' = Node (Some ''terminal'') None None None None None"
  by (simp add: empty_node_def)
subsection \<open>Claims about the categorical encoding and the constructor\<close>

text \<open>
  C10: for a categorical column and labels of the same length, the encoding of lines
  98-103 raises nothing (in particular it never divides by zero) and replaces every value
  of the column by a rank; the ranks are a one-to-one correspondence between the distinct
  categories of the column and 0..k-1, where k is the number of distinct categories, and
  they follow the ascending order of the statistic: a category of smaller rank never has a
  greater statistic. The statistic of a category is its number of occurrences divided by
  its number of occurrences among the samples of label 1, and 0 when it has none there.
\<close>

theorem categorical_encoding_ranks:
  assumes "length col = length sub_y"
  shows "\<exists>rank. encode_categorical A col sub_y = Inr (map (\<lambda>x. of_nat (rank x)) col)
           \<and> bij_betw rank (set col) {0 ..< card (set col)}
           \<and> (\<forall>a \<in> set col. \<forall>b \<in> set col.
                 rank a < rank b \<longrightarrow>
                   category_statistic A col sub_y a \<le> category_statistic A col sub_y b)"
  using assms by (rule encode_categorical_ranks)

theorem categorical_encoding_ranks_witness:
  "length [7, 8, 7, 9, 8, 7 :: rat] = length [1, 1, 0, 0, 0, 1 :: int]
   \<and> (\<exists>rank. encode_categorical exact_arith [7, 8, 7, 9, 8, 7] [1, 1, 0, 0, 0, 1]
                 = Inr (map (\<lambda>x. of_nat (rank x)) [7, 8, 7, 9, 8, 7])
           \<and> bij_betw rank (set [7, 8, 7, 9, 8, 7]) {0 ..< card (set [7, 8, 7, 9, 8, 7 :: rat])}
           \<and> (\<forall>a \<in> set [7, 8, 7, 9, 8, 7]. \<forall>b \<in> set [7, 8, 7, 9, 8, 7].
                 rank a < rank b \<longrightarrow>
                   category_statistic exact_arith [7, 8, 7, 9, 8, 7] [1, 1, 0, 0, 0, 1] a
                     \<le> category_statistic exact_arith [7, 8, 7, 9, 8, 7] [1, 1, 0, 0, 0, 1] b))
   \<and> encode_categorical exact_arith [7, 8, 7, 9, 8, 7] [1, 1, 0, 0, 0, 1]
       = Inr [1, 2, 1, 0, 2, 1]"
proof -
  have l: "length [7, 8, 7, 9, 8, 7 :: rat] = length [1, 1, 0, 0, 0, 1 :: int]" by simp
  from l categorical_encoding_ranks [OF l, of exact_arith] encode_categorical_example
  show ?thesis by (intro conjI)
qed

text \<open>
  C8: the constructor raises ValueError exactly when one of the feature-kind tags is
  neither \<open>real\<close> nor \<open>categorical\<close>; it takes no data, so the error comes before any
  row is processed. With only valid tags it returns the object, with an empty tree and
  the tags and options it was given.
\<close>

theorem init_checks_feature_types:
  "init fts md mss msl =
     (if \<exists>t \<in> set fts. t \<noteq> ''real'' \<and> t \<noteq> ''categorical'' then
        Inl (ValueError ''There is unknown feature type'')
      else
        Inr \<lparr>tree = empty_node, feature_types = fts, max_depth = md,
             min_samples_split = mss, min_samples_leaf = msl\<rparr>)"
  unfolding init_def np_any_map by (rule refl)

theorem init_checks_feature_types_witness:
  "init [''real'', ''ordinal''] None None None = Inl (ValueError ''There is unknown feature type'')
   \<and> init [''real'', ''categorical''] None None None =
       Inr \<lparr>tree = empty_node, feature_types = [''real'', ''categorical''], max_depth = None,
            min_samples_split = None, min_samples_leaf = None\<rparr>"
  using init_checks_feature_types [of "[''real'', ''ordinal'']" None None None]
    init_checks_feature_types [of "[''real'', ''categorical'']" None None None]
  by simp

subsection \<open>Claims about fit and predict\<close>

text \<open>
  C7: when the label vector is not empty and all its labels are the same label c, fit
  returns normally, whatever the feature matrix, and has written the type terminal and
  the class c into the root; the root is then the single Terminal node of class c, for an
  object as it was constructed and for every tree without the keys of a nonterminal node,
  which \<^verbatim>\<open>_fit_node\<close> never writes. On the fitted object predict returns c for every
  row of every matrix, seen during fit or not.
\<close>

theorem fit_pure_labels_predict:
  assumes "y \<noteq> []" and "\<forall>l \<in> set y. l = c"
  shows "fit A self X y = (self\<lparr>tree := set_class (set_type (tree self) ''terminal'') c\<rparr>, None)
       \<and> (leaf_keys_only (tree self) \<longrightarrow> fit A self X y = (self\<lparr>tree := Terminal c\<rparr>, None))
       \<and> predict A' (fst (fit A self X y)) X' = Inr (map (\<lambda>x. c) (rows X'))"
proof -
  from pure_labels [OF assms] have p: "length (remdups y) = 1" and h: "hd y = c"
    by simp_all
  have f: "fit A self X y
      = (self\<lparr>tree := set_class (set_type (tree self) ''terminal'') c\<rparr>, None)"
    unfolding fit_def by (simp only: fit_node_pure [OF p] h prod.case)
  have l: "fit A self X y = (self\<lparr>tree := Terminal c\<rparr>, None)" if "leaf_keys_only (tree self)"
    by (simp only: f set_terminal_leaf [OF that])
  have q: "predict A' (fst (fit A self X y)) X' = Inr (map (\<lambda>x. c) (rows X'))"
    by (simp only: f fst_conv predict_terminal)
  from f l q show ?thesis by blast
qed

theorem fit_pure_labels_predict_witness:
  "[2, 2, 2 :: int] \<noteq> [] \<and> list_all (\<lambda>l. l = 2) [2, 2, 2 :: int]
   \<and> leaf_keys_only empty_node
   \<and> fit exact_arith
        \<lparr>tree = empty_node, feature_types = [''real''], max_depth = None,
           min_samples_split = None, min_samples_leaf = None\<rparr>
        \<lparr>rows = [[1], [5], [9]], ncols = 1\<rparr> [2, 2, 2]
       = (\<lparr>tree = Terminal 2, feature_types = [''real''], max_depth = None,
            min_samples_split = None, min_samples_leaf = None\<rparr>, None)
   \<and> predict exact_arith
        (fst (fit exact_arith
                \<lparr>tree = empty_node, feature_types = [''real''], max_depth = None,
                   min_samples_split = None, min_samples_leaf = None\<rparr>
                \<lparr>rows = [[1], [5], [9]], ncols = 1\<rparr> [2, 2, 2]))
        \<lparr>rows = [[7], [-3]], ncols = 1\<rparr> = Inr [2, 2]"
proof -
  let ?dt = "\<lparr>tree = empty_node, feature_types = [''real''], max_depth = None,
               min_samples_split = None, min_samples_leaf = None\<rparr>"
  let ?X = "\<lparr>rows = [[1], [5], [9 :: rat]], ncols = 1\<rparr>"
  have a: "[2, 2, 2 :: int] \<noteq> []" by simp
  have b: "\<forall>l \<in> set [2, 2, 2 :: int]. l = 2" by simp
  have k: "leaf_keys_only (tree ?dt)" by (simp add: leaf_keys_only_empty)
  note t = fit_pure_labels_predict [OF a b, of exact_arith ?dt ?X exact_arith
      "\<lparr>rows = [[7], [-3]], ncols = 1\<rparr>"]
  from t k have f: "fit exact_arith ?dt ?X [2, 2, 2] = (?dt\<lparr>tree := Terminal 2\<rparr>, None)"
    by blast
  from t have p: "predict exact_arith (fst (fit exact_arith ?dt ?X [2, 2, 2]))
        \<lparr>rows = [[7], [-3]], ncols = 1\<rparr> = Inr (map (\<lambda>x. 2) (rows \<lparr>rows = [[7], [-3 :: rat]], ncols = 1\<rparr>))"
    by blast
  from a b f p show ?thesis by (simp add: leaf_keys_only_empty)
qed

text \<open>
  C2 as stated fails: on a matrix with two rows and no column and the labels [0, 1], fit
  returns normally although the labels differ; the search loop runs over no column and
  the root becomes the Terminal of the most common label.
\<close>

theorem fit_no_columns_counterexample:
  "init [] None None None =
     Inr \<lparr>tree = empty_node, feature_types = [], max_depth = None,
          min_samples_split = None, min_samples_leaf = None\<rparr>
   \<and> fit exact_arith
        \<lparr>tree = empty_node, feature_types = [], max_depth = None,
           min_samples_split = None, min_samples_leaf = None\<rparr>
        \<lparr>rows = [[], []], ncols = 0\<rparr> [0, 1]
       = (\<lparr>tree = Terminal 0, feature_types = [], max_depth = None,
            min_samples_split = None, min_samples_leaf = None\<rparr>, None)"
proof -
  have n: "length (remdups [0, 1 :: int]) \<noteq> 1" by simp
  have c: "ncols \<lparr>rows = [[], []], ncols = 0\<rparr> = 0" by simp
  have m: "most_common_key (Counter [0, 1 :: int]) = Inr 0"
    by (simp add: most_common_key_def Counter_def)
  have "fit_node exact_arith [] \<lparr>rows = [[], []], ncols = 0\<rparr> [0, 1] empty_node
          = (Terminal 0, None)"
    by (simp only: fit_node_mixed [OF n] search_split_no_columns [OF c] m sum.case
        set_terminal_empty)
  then show ?thesis by (simp add: fit_def init_def np_any_def)
qed

text \<open>
  C2, amended: for a DecisionTree constructed with valid feature kinds and a dataset with
  at least one feature column, as many columns as feature kinds and as many labels as
  rows, fit returns normally exactly when the label vector has exactly one distinct
  label, and then the root is the Terminal of that label; otherwise (also for an empty
  dataset) fit raises the ValueError of unpacking the 4-tuple of find_best_split into two
  variables, at the first feature column, and has written nothing into the tree.
\<close>

theorem fit_returns_iff_pure:
  assumes "init fts md mss msl = Inr self"
    and "ncols X = length fts" and "0 < ncols X"
    and "length (rows X) = length y"
  shows "(card (set y) = 1 \<longrightarrow> fit A self X y = (self\<lparr>tree := Terminal (hd y)\<rparr>, None))
       \<and> (card (set y) \<noteq> 1 \<longrightarrow>
            fit A self X y
              = (self, Some (ValueError ''too many values to unpack (expected 2)'')))"
proof -
  from init_valid [OF assms(1)]
  have ft: "feature_types self = fts" and tr: "tree self = empty_node"
    and valid: "\<forall>t \<in> set fts. t = ''real'' \<or> t = ''categorical''"
    by simp_all
  from assms(2) assms(3) have pos: "0 < length fts" by simp
  with valid have k: "fts ! 0 = ''real'' \<or> fts ! 0 = ''categorical''" by simp
  have c: "card (set y) = length (remdups y)" by (simp only: length_remdups_card_conv)
  have a: "fit A self X y = (self\<lparr>tree := Terminal (hd y)\<rparr>, None)" if "card (set y) = 1"
  proof -
    from that c have p: "length (remdups y) = 1" by simp
    show ?thesis
      unfolding fit_def tr by (simp only: fit_node_pure [OF p] set_terminal_empty prod.case)
  qed
  have b: "fit A self X y
      = (self, Some (ValueError ''too many values to unpack (expected 2)''))"
    if "card (set y) \<noteq> 1"
  proof -
    from that c have p: "length (remdups y) \<noteq> 1" by simp
    have "fit A self X y
        = (self\<lparr>tree := tree self\<rparr>, Some (ValueError ''too many values to unpack (expected 2)''))"
      unfolding fit_def ft
      by (simp only: fit_node_unpack [OF p assms(3) pos k assms(4)] prod.case)
    then show ?thesis by simp
  qed
  from a b show ?thesis by blast
qed

theorem fit_returns_iff_pure_witness:
  "init [''real''] None None None =
     Inr \<lparr>tree = empty_node, feature_types = [''real''], max_depth = None,
          min_samples_split = None, min_samples_leaf = None\<rparr>
   \<and> fit exact_arith
        \<lparr>tree = empty_node, feature_types = [''real''], max_depth = None,
           min_samples_split = None, min_samples_leaf = None\<rparr>
        \<lparr>rows = [[1], [2], [3]], ncols = 1\<rparr> [0, 1, 1]
       = (\<lparr>tree = empty_node, feature_types = [''real''], max_depth = None,
            min_samples_split = None, min_samples_leaf = None\<rparr>,
          Some (ValueError ''too many values to unpack (expected 2)''))
   \<and> fit exact_arith
        \<lparr>tree = empty_node, feature_types = [''real''], max_depth = None,
           min_samples_split = None, min_samples_leaf = None\<rparr>
        \<lparr>rows = [[1], [2], [3]], ncols = 1\<rparr> [4, 4, 4]
       = (\<lparr>tree = Terminal 4, feature_types = [''real''], max_depth = None,
            min_samples_split = None, min_samples_leaf = None\<rparr>, None)"
proof -
  let ?X = "\<lparr>rows = [[1], [2], [3 :: rat]], ncols = 1\<rparr>"
  have c: "ncols ?X = length [''real'']" by simp
  have p: "0 < ncols ?X" by simp
  have l1: "length (rows ?X) = length [0, 1, 1 :: int]" by simp
  have l2: "length (rows ?X) = length [4, 4, 4 :: int]" by simp
  from init_example fit_returns_iff_pure [OF init_example c p l1, of exact_arith]
    fit_returns_iff_pure [OF init_example c p l2, of exact_arith]
  show ?thesis by simp
qed

text \<open>
  C9 as stated fails, in both of its parts. fit accepts a feature matrix of three rows
  with a label vector of two equal labels and returns a Terminal root: the mismatch is
  not rejected. And on the empty dataset, a matrix of shape (0, 0) with no label, fit
  raises IndexError only at line 117, after line 116 has written the type into the root:
  the object is left with the malformed root \<^verbatim>\<open>{'type': 'terminal'}\<close>, which has no
  class.
\<close>

theorem fit_mismatch_counterexample:
  "length (rows \<lparr>rows = [[1], [2], [3]], ncols = 1\<rparr>) \<noteq> length [1, 1 :: int]
   \<and> fit exact_arith
        \<lparr>tree = empty_node, feature_types = [''real''], max_depth = None,
           min_samples_split = None, min_samples_leaf = None\<rparr>
        \<lparr>rows = [[1], [2], [3]], ncols = 1\<rparr> [1, 1]
       = (\<lparr>tree = Terminal 1, feature_types = [''real''], max_depth = None,
            min_samples_split = None, min_samples_leaf = None\<rparr>, None)
   \<and> fit exact_arith
        \<lparr>tree = empty_node, feature_types = [], max_depth = None,
           min_samples_split = None, min_samples_leaf = None\<rparr>
        \<lparr>rows = [], ncols = 0\<rparr> []
       = (\<lparr>tree = Node (Some ''terminal'') None None None None None, feature_types = [],
            max_depth = None, min_samples_split = None, min_samples_leaf = None\<rparr>,
          Some IndexError)"
proof -
  have p: "length (remdups [1, 1 :: int]) = 1" by simp
  have "fit_node exact_arith [''real''] \<lparr>rows = [[1], [2], [3]], ncols = 1\<rparr> [1, 1] empty_node
      = (Terminal 1, None)"
    by (simp only: fit_node_pure [OF p] list.sel set_terminal_empty)
  then have a: "fit exact_arith
        \<lparr>tree = empty_node, feature_types = [''real''], max_depth = None,
           min_samples_split = None, min_samples_leaf = None\<rparr>
        \<lparr>rows = [[1], [2], [3]], ncols = 1\<rparr> [1, 1]
       = (\<lparr>tree = Terminal 1, feature_types = [''real''], max_depth = None,
            min_samples_split = None, min_samples_leaf = None\<rparr>, None)"
    by (simp add: fit_def)
  have c: "ncols \<lparr>rows = [], ncols = 0\<rparr> = 0" by simp
  have "fit_node exact_arith [] \<lparr>rows = [], ncols = 0\<rparr> [] empty_node
      = (Node (Some ''terminal'') None None None None None, Some IndexError)"
    by (simp only: fit_node_empty_no_columns [OF c] set_type_empty)
  then have b: "fit exact_arith
        \<lparr>tree = empty_node, feature_types = [], max_depth = None,
           min_samples_split = None, min_samples_leaf = None\<rparr>
        \<lparr>rows = [], ncols = 0\<rparr> []
       = (\<lparr>tree = Node (Some ''terminal'') None None None None None, feature_types = [],
            max_depth = None, min_samples_split = None, min_samples_leaf = None\<rparr>,
          Some IndexError)"
    by (simp add: fit_def)
  have l: "length (rows \<lparr>rows = [[1], [2], [3 :: rat]], ncols = 1\<rparr>) \<noteq> length [1, 1 :: int]"
    by simp
  from l a b show ?thesis by (intro conjI)
qed

text \<open>
  C9, amended: fit checks nothing at entry; it hands the matrix and the labels to
  \<^verbatim>\<open>_fit_node\<close> as they are. When the labels of a non-empty label vector are all the
  same label c, fit returns normally with the type terminal and the class c written into
  the root (the Terminal of c, for a tree without the keys of a nonterminal node),
  whatever the matrix: its number of rows is never compared with the number of labels.
  When there is no label and the matrix has no column, fit raises IndexError, from the
  most common label of no label at line 117, and line 116 has already written the type
  into the root: a newly constructed object is left with a root that has a type and no
  class, and predict on it raises KeyError for every matrix with at least one row.
\<close>

theorem fit_degenerate_input:
  "(y \<noteq> [] \<and> (\<forall>l \<in> set y. l = c) \<longrightarrow>
      fit A self X y = (self\<lparr>tree := set_class (set_type (tree self) ''terminal'') c\<rparr>, None)
      \<and> (leaf_keys_only (tree self) \<longrightarrow> tree (fst (fit A self X y)) = Terminal c))
   \<and> (y = [] \<and> ncols X = 0 \<longrightarrow>
        fit A self X y = (self\<lparr>tree := set_type (tree self) ''terminal''\<rparr>, Some IndexError)
        \<and> (tree self = empty_node \<longrightarrow>
             tree (fst (fit A self X y)) = Node (Some ''terminal'') None None None None None
             \<and> (rows X' \<noteq> [] \<longrightarrow> predict A' (fst (fit A self X y)) X' = Inl KeyError)))"
proof -
  have a: "fit A self X y
        = (self\<lparr>tree := set_class (set_type (tree self) ''terminal'') c\<rparr>, None)
      \<and> (leaf_keys_only (tree self) \<longrightarrow> tree (fst (fit A self X y)) = Terminal c)"
    if n: "y \<noteq> []" and s: "\<forall>l \<in> set y. l = c"
  proof -
    from pure_labels [OF n s] have p: "length (remdups y) = 1" and h: "hd y = c"
      by simp_all
    have f: "fit A self X y
        = (self\<lparr>tree := set_class (set_type (tree self) ''terminal'') c\<rparr>, None)"
      unfolding fit_def by (simp only: fit_node_pure [OF p] h prod.case)
    have "tree (fst (fit A self X y)) = Terminal c" if "leaf_keys_only (tree self)"
      by (simp add: f set_terminal_leaf [OF that])
    with f show ?thesis by blast
  qed
  have b: "fit A self X y = (self\<lparr>tree := set_type (tree self) ''terminal''\<rparr>, Some IndexError)
      \<and> (tree self = empty_node \<longrightarrow>
           tree (fst (fit A self X y)) = Node (Some ''terminal'') None None None None None
           \<and> (rows X' \<noteq> [] \<longrightarrow> predict A' (fst (fit A self X y)) X' = Inl KeyError))"
    if e: "y = []" and z: "ncols X = 0"
  proof -
    have f: "fit A self X y
        = (self\<lparr>tree := set_type (tree self) ''terminal''\<rparr>, Some IndexError)"
      unfolding fit_def e by (simp only: fit_node_empty_no_columns [OF z] prod.case)
    have g: "tree (fst (fit A self X y)) = Node (Some ''terminal'') None None None None None
        \<and> (rows X' \<noteq> [] \<longrightarrow> predict A' (fst (fit A self X y)) X' = Inl KeyError)"
      if t: "tree self = empty_node"
    proof -
      have f': "fst (fit A self X y)
          = self\<lparr>tree := Node (Some ''terminal'') None None None None None\<rparr>"
        by (simp only: f fst_conv t set_type_empty)
      have "predict A' (fst (fit A self X y)) X' = Inl KeyError" if "rows X' \<noteq> []"
        unfolding f' by (rule predict_no_class [OF that])
      moreover have "tree (fst (fit A self X y))
          = Node (Some ''terminal'') None None None None None"
        by (simp add: f')
      ultimately show ?thesis by blast
    qed
    from f g show ?thesis by blast
  qed
  from a b show ?thesis by blast
qed

theorem fit_degenerate_input_witness:
  "[1, 1 :: int] \<noteq> [] \<and> list_all (\<lambda>l. l = 1) [1, 1 :: int]
   \<and> leaf_keys_only empty_node
   \<and> length (rows \<lparr>rows = [[1], [2], [3]], ncols = 1\<rparr>) \<noteq> length [1, 1 :: int]
   \<and> tree (fst (fit exact_arith
                  \<lparr>tree = empty_node, feature_types = [''real''], max_depth = None,
                     min_samples_split = None, min_samples_leaf = None\<rparr>
                  \<lparr>rows = [[1], [2], [3]], ncols = 1\<rparr> [1, 1])) = Terminal 1
   \<and> ncols \<lparr>rows = [], ncols = 0\<rparr> = 0
   \<and> rows \<lparr>rows = [[7]], ncols = 1\<rparr> \<noteq> []
   \<and> fit exact_arith
        \<lparr>tree = empty_node, feature_types = [], max_depth = None,
           min_samples_split = None, min_samples_leaf = None\<rparr>
        \<lparr>rows = [], ncols = 0\<rparr> []
       = (\<lparr>tree = Node (Some ''terminal'') None None None None None, feature_types = [],
            max_depth = None, min_samples_split = None, min_samples_leaf = None\<rparr>,
          Some IndexError)
   \<and> predict exact_arith
        (fst (fit exact_arith
                \<lparr>tree = empty_node, feature_types = [], max_depth = None,
                   min_samples_split = None, min_samples_leaf = None\<rparr>
                \<lparr>rows = [], ncols = 0\<rparr> []))
        \<lparr>rows = [[7]], ncols = 1\<rparr> = Inl KeyError"
proof -
  let ?dt = "\<lparr>tree = empty_node, feature_types = [''real''], max_depth = None,
               min_samples_split = None, min_samples_leaf = None\<rparr>"
  let ?d0 = "\<lparr>tree = empty_node, feature_types = [], max_depth = None,
               min_samples_split = None, min_samples_leaf = None\<rparr>"
  let ?X = "\<lparr>rows = [[1], [2], [3 :: rat]], ncols = 1\<rparr>"
  let ?E = "\<lparr>rows = ([] :: rat list list), ncols = 0\<rparr>"
  let ?P = "\<lparr>rows = [[7 :: rat]], ncols = 1\<rparr>"
  have h1: "[1, 1 :: int] \<noteq> [] \<and> (\<forall>l \<in> set [1, 1 :: int]. l = 1)" by simp
  have k: "leaf_keys_only (tree ?dt)" by (simp add: leaf_keys_only_empty)
  have h2: "([] :: int list) = [] \<and> ncols ?E = 0" by simp
  have t: "tree ?d0 = empty_node" by simp
  have r: "rows ?P \<noteq> []" by simp
  from fit_degenerate_input [of "[1, 1]" 1 exact_arith ?dt ?X ?P exact_arith] h1 k
  have a: "tree (fst (fit exact_arith ?dt ?X [1, 1])) = Terminal 1" by blast
  from fit_degenerate_input [of "[]" 0 exact_arith ?d0 ?E ?P exact_arith] h2 t r
  have b: "fit exact_arith ?d0 ?E [] = (?d0\<lparr>tree := set_type (tree ?d0) ''terminal''\<rparr>, Some IndexError)"
    and c: "predict exact_arith (fst (fit exact_arith ?d0 ?E [])) ?P = Inl KeyError"
    by blast+
  from b have b': "fit exact_arith ?d0 ?E []
       = (\<lparr>tree = Node (Some ''terminal'') None None None None None, feature_types = [],
            max_depth = None, min_samples_split = None, min_samples_leaf = None\<rparr>,
          Some IndexError)"
    by (simp add: set_type_empty)
  from a b' c show ?thesis by (simp add: leaf_keys_only_empty)
qed

text \<open>
  C1, on the code: with one real feature column [1, 2, 3] and labels [0, 1, 1] fit raises
  the ValueError of line 107, tracks no best split at all and leaves the object as it
  was. For that column find_best_split scores the thresholds 3/2 and 5/2 with 0 and 1/3
  and reports 3/2, the one of least score, as best; lines 108-112, given these thresholds
  and scores, keep the threshold 5/2 of greatest score 1/3 instead.
\<close>

theorem fit_search_raises_and_keeps_greatest:
  "fit A \<lparr>tree = empty_node, feature_types = [''real''], max_depth = None,
           min_samples_split = None, min_samples_leaf = None\<rparr>
        \<lparr>rows = [[1], [2], [3]], ncols = 1\<rparr> [0, 1, 1]
     = (\<lparr>tree = empty_node, feature_types = [''real''], max_depth = None,
          min_samples_split = None, min_samples_leaf = None\<rparr>,
        Some (ValueError ''too many values to unpack (expected 2)''))
   \<and> find_best_split exact_arith (column \<lparr>rows = [[1], [2], [3]], ncols = 1\<rparr> 0) [0, 1, 1]
     = Inr ([3 / 2, 5 / 2], [0, 1 / 3], Some (3 / 2), Some 0)
   \<and> update_best exact_arith (column \<lparr>rows = [[1], [2], [3]], ncols = 1\<rparr> 0) 0
        (PySeq [3 / 2, 5 / 2]) (PySeq [0, 1 / 3]) None
     = Inr (Some (0, 5 / 2, 1 / 3, [True, True, False]))"
proof -
  let ?X = "\<lparr>rows = [[1], [2], [3 :: rat]], ncols = 1\<rparr>"
  let ?dt = "\<lparr>tree = empty_node, feature_types = [''real''], max_depth = None,
         min_samples_split = None, min_samples_leaf = None\<rparr>"
  have n: "length (remdups [0, 1, 1 :: int]) \<noteq> 1" by simp
  have p: "0 < ncols ?X" by simp
  have q: "0 < length [''real'']" by simp
  have k: "[''real''] ! 0 = ''real'' \<or> [''real''] ! 0 = ''categorical''" by simp
  have l: "length (rows ?X) = length [0, 1, 1 :: int]" by simp
  have ft: "feature_types ?dt = [''real'']" by simp
  have "fit A ?dt ?X [0, 1, 1]
     = (?dt\<lparr>tree := tree ?dt\<rparr>, Some (ValueError ''too many values to unpack (expected 2)''))"
    unfolding fit_def ft by (simp only: fit_node_unpack [OF n p q k l] prod.case)
  then have a: "fit A ?dt ?X [0, 1, 1]
     = (?dt, Some (ValueError ''too many values to unpack (expected 2)''))"
    by simp
  have col: "column ?X 0 = [1, 2, 3]" by (simp add: column_def)
  have b: "find_best_split exact_arith (column ?X 0) [0, 1, 1]
     = Inr ([3 / 2, 5 / 2], [0, 1 / 3], Some (3 / 2), Some 0)"
    unfolding col by (rule find_best_split_example3)
  have c: "update_best exact_arith (column ?X 0) 0 (PySeq [3 / 2, 5 / 2]) (PySeq [0, 1 / 3]) None
     = Inr (Some (0, 5 / 2, 1 / 3, [True, True, False]))"
    unfolding col by (simp add: update_best_def argmax_def exact_arith_def)
  from a b c show ?thesis by (intro conjI)
qed

end
